theory Spec2Isabelle
  imports Complex_Main "HOL-Library.Multiset" "HOL-Library.Sublist"
begin

section \<open>Python values and exceptions\<close>

text \<open>
  The three scripts are plain Python. Floats are modelled as exact reals, Python's
  unbounded ints as \<open>int\<close>, and an uncaught exception as the \<open>Inl\<close> branch of a sum.
\<close>

datatype error = ValueError | IndexError

type_synonym point = "real \<times> real"

text \<open>The slice \<^verbatim>\<open>xs[a:b]\<close> for non-negative bounds: it never raises, it truncates.\<close>

definition slice :: "'a list \<Rightarrow> nat \<Rightarrow> nat \<Rightarrow> 'a list" where
  "slice xs a b = take (b - a) (drop a xs)"

text \<open>Reading \<^verbatim>\<open>xs[i]\<close> raises IndexError out of range.\<close>

definition getitem :: "'a list \<Rightarrow> nat \<Rightarrow> error + 'a" where
  "getitem xs i = (if i < length xs then Inr (xs ! i) else Inl IndexError)"

section \<open>gemini_research_windows/mouse.py: the fixed-point decoder\<close>

text \<open>
  \<^verbatim>\<open>int.from_bytes(seq, byteorder='little', signed=s)\<close> on a list of ints first turns the
  list into a bytes object, which raises ValueError unless every item is in
  \<^verbatim>\<open>range(256)\<close>. The signed reading is two's complement on the width the sequence has;
  the empty sequence reads as 0.
\<close>

fun little_endian :: "int list \<Rightarrow> int" where
  "little_endian [] = 0"
| "little_endian (b # bs) = b + 256 * little_endian bs"

definition is_byte :: "int \<Rightarrow> bool" where
  "is_byte b = (0 \<le> b \<and> b < 256)"

definition from_bytes :: "int list \<Rightarrow> bool \<Rightarrow> error + int" where
  "from_bytes bs signed =
     (if list_all is_byte bs then
        (let u = little_endian bs in
         Inr (if signed \<and> bs \<noteq> [] \<and> 2 ^ (8 * length bs - 1) \<le> u
              then u - 2 ^ (8 * length bs) else u))
      else Inl ValueError)"

text \<open>
  The body of the loop of \<^verbatim>\<open>hex_to_decimal\<close>, for one chunk: the integer part is read
  first (bytes 2 and 3, signed), then the fraction (bytes 0 and 1, unsigned, over 65536).
\<close>

definition chunk_value :: "int list \<Rightarrow> error + real" where
  "chunk_value hex_chunk =
     (case from_bytes (slice hex_chunk 2 4) True of
        Inl e \<Rightarrow> Inl e
      | Inr integer_part \<Rightarrow>
          (case from_bytes (slice hex_chunk 0 2) False of
             Inl e \<Rightarrow> Inl e
           | Inr numerator \<Rightarrow>
               (let fractional_part = real_of_int numerator / 65536
                in Inr (real_of_int integer_part + fractional_part))))"

text \<open>
  \<^verbatim>\<open>for i in range(0, len(hex_values), 8)\<close>: the index runs in steps of 8 while it is
  below the length; each round appends one value to \<^verbatim>\<open>points\<close>.
\<close>

function hex_loop :: "int list \<Rightarrow> nat \<Rightarrow> real list \<Rightarrow> error + real list" where
  "hex_loop hex_values i points =
     (if i < length hex_values then
        (case chunk_value (slice hex_values i (i + 8)) of
           Inl e \<Rightarrow> Inl e
         | Inr decimal_value \<Rightarrow> hex_loop hex_values (i + 8) (points @ [decimal_value]))
      else Inr points)"
  by pat_completeness auto
termination
  by (relation "measure (\<lambda>(hex_values, i, points). length hex_values - i)") auto

declare hex_loop.simps [simp del]

definition hex_to_decimal :: "int list \<Rightarrow> error + real list" where
  "hex_to_decimal hex_values = hex_loop hex_values 0 []"

definition smooth_mouse_x_curve :: "int list" where
  "smooth_mouse_x_curve =
     [0x00, 0x00, 0x00, 0x00, 0x00, 0x00, 0x00, 0x00,
      0x15, 0x6e, 0x00, 0x00, 0x00, 0x00, 0x00, 0x00,
      0x00, 0x40, 0x01, 0x00, 0x00, 0x00, 0x00, 0x00,
      0x29, 0xdc, 0x03, 0x00, 0x00, 0x00, 0x00, 0x00,
      0x00, 0x00, 0x28, 0x00, 0x00, 0x00, 0x00, 0x00]"

definition smooth_mouse_y_curve :: "int list" where
  "smooth_mouse_y_curve =
     [0x00, 0x00, 0x00, 0x00, 0x00, 0x00, 0x00, 0x00,
      0xfd, 0x11, 0x01, 0x00, 0x00, 0x00, 0x00, 0x00,
      0x00, 0x24, 0x04, 0x00, 0x00, 0x00, 0x00, 0x00,
      0x00, 0xfc, 0x12, 0x00, 0x00, 0x00, 0x00, 0x00,
      0xc0, 0xbb, 0x01, 0x00, 0x00, 0x00, 0x00, 0x00]"

text \<open>
  The module's last steps: both tables are decoded and the two sequences are paired
  with \<^verbatim>\<open>list(zip(x_points, y_points))\<close>. The tables are parameters here.
\<close>

definition coordinates :: "int list \<Rightarrow> int list \<Rightarrow> error + (real \<times> real) list" where
  "coordinates x_curve y_curve =
     (case hex_to_decimal x_curve of
        Inl e \<Rightarrow> Inl e
      | Inr x_points \<Rightarrow>
          (case hex_to_decimal y_curve of
             Inl e \<Rightarrow> Inl e
           | Inr y_points \<Rightarrow> Inr (zip x_points y_points)))"

section \<open>simulator.py and simulator2.py: the curve editors\<close>

text \<open>
  Both scripts declare the same module constants; \<^verbatim>\<open>MARGIN\<close> and \<^verbatim>\<open>DELTA_Y\<close> exist in
  simulator2.py only. Where the two scripts define a function of the same name, the
  one of simulator2.py carries the suffix 2 here.
\<close>

definition CANVAS_WIDTH :: real where "CANVAS_WIDTH = 500"
definition CANVAS_HEIGHT :: real where "CANVAS_HEIGHT = 500"
definition MARGIN :: real where "MARGIN = 20"
definition X_MIN :: real where "X_MIN = 0"
definition X_MAX :: real where "X_MAX = 1"
definition Y_MIN :: real where "Y_MIN = 0"
definition Y_MAX :: real where "Y_MAX = 3"
definition POINT_RADIUS :: real where "POINT_RADIUS = 6"
definition DELTA_Y :: real where "DELTA_Y = 1 / 10"

definition WINDOWS_CURVE :: "point list" where
  "WINDOWS_CURVE = [(0, 0), (3 / 10, 3 / 10), (6 / 10, 12 / 10), (1, 25 / 10)]"

subsection \<open>Coordinate transforms\<close>

text \<open>
  The four transforms as formulas over exact reals. The scripts evaluate them in
  binary64; that reading of simulator.py's pair, with a rounding after every
  operation, is \<open>to_canvas_coords_b64\<close> and \<open>to_function_coords_b64\<close> below.
\<close>

definition to_canvas_coords :: "real \<Rightarrow> real \<Rightarrow> real \<times> real" where
  "to_canvas_coords x y =
     (let canvas_x = (x - X_MIN) / (X_MAX - X_MIN) * CANVAS_WIDTH;
          canvas_y = CANVAS_HEIGHT - (y - Y_MIN) / (Y_MAX - Y_MIN) * CANVAS_HEIGHT
      in (canvas_x, canvas_y))"

definition to_function_coords :: "real \<Rightarrow> real \<Rightarrow> real \<times> real" where
  "to_function_coords canvas_x canvas_y =
     (let x = canvas_x / CANVAS_WIDTH * (X_MAX - X_MIN) + X_MIN;
          y = (CANVAS_HEIGHT - canvas_y) / CANVAS_HEIGHT * (Y_MAX - Y_MIN) + Y_MIN
      in (x, y))"

definition to_canvas_coords2 :: "real \<Rightarrow> real \<Rightarrow> real \<times> real" where
  "to_canvas_coords2 x y =
     (let drawable_width = CANVAS_WIDTH - 2 * MARGIN;
          drawable_height = CANVAS_HEIGHT - 2 * MARGIN;
          canvas_x = MARGIN + (x - X_MIN) / (X_MAX - X_MIN) * drawable_width;
          canvas_y = CANVAS_HEIGHT - MARGIN - (y - Y_MIN) / (Y_MAX - Y_MIN) * drawable_height
      in (canvas_x, canvas_y))"

definition to_function_coords2 :: "real \<Rightarrow> real \<Rightarrow> real \<times> real" where
  "to_function_coords2 canvas_x canvas_y =
     (let drawable_width = CANVAS_WIDTH - 2 * MARGIN;
          drawable_height = CANVAS_HEIGHT - 2 * MARGIN;
          x = (canvas_x - MARGIN) / drawable_width * (X_MAX - X_MIN) + X_MIN;
          y = (CANVAS_HEIGHT - MARGIN - canvas_y) / drawable_height * (Y_MAX - Y_MIN) + Y_MIN
      in (x, y))"

subsection \<open>The editor state\<close>

text \<open>
  The fields of \<^verbatim>\<open>CurveEditor\<close> that the handlers read or write. A control point is a
  two-element list in the source; no two entries of \<^verbatim>\<open>self.points\<close> ever share one
  (presets are copied or built fresh, a drag stores a new list), so a list of pairs
  has the same behaviour. \<^verbatim>\<open>drag_data\<close> is spread over three fields.

  simulator2.py adds the lock flag and the selection. The selection is a Python set;
  it is kept here as the list of its members in the order a loop visits them, and
  every statement below holds for any such order.

  A handler returns the state it leaves behind together with the exception that
  ended it, if any.
\<close>

record editor =
  use_windows_curve :: bool
  enable_nonlinear_boost :: bool
  enable_acceleration_cap :: bool
  points :: "point list"
  point_index :: "nat option"
  offset_x :: real
  offset_y :: real

record editor2 = editor +
  lock_low_speed :: bool
  selected_indices :: "nat list"

subsection \<open>Presets\<close>

definition update_curve_from_options :: "editor \<Rightarrow> editor" where
  "update_curve_from_options st =
     (if use_windows_curve st then st\<lparr>points := WINDOWS_CURVE\<rparr>
      else
        (let low = (0, 0);
             mid = (if enable_nonlinear_boost st then (5 / 10, 15 / 10) else (5 / 10, 5 / 10));
             high = (if enable_acceleration_cap st then (1, 25 / 10) else (1, 1))
         in st\<lparr>points := [low, mid, high]\<rparr>))"

definition update_curve_from_options2 :: "editor2 \<Rightarrow> editor2" where
  "update_curve_from_options2 st0 =
     (let st = st0\<lparr>selected_indices := []\<rparr> in
      if use_windows_curve st then st\<lparr>points := WINDOWS_CURVE\<rparr>
      else
        (let low = (0, 0);
             mid = (if enable_nonlinear_boost st then (5 / 10, 15 / 10) else (5 / 10, 5 / 10));
             high = (if enable_acceleration_cap st then (1, 25 / 10) else (1, 1))
         in st\<lparr>points := [low, mid, high]\<rparr>))"

subsection \<open>Increase and decrease of the selected points (simulator2.py)\<close>

text \<open>
  \<^verbatim>\<open>for i in self.selected_indices\<close>: the locked index 0 is skipped, any other index
  has its output replaced; an index beyond the list raises IndexError and leaves the
  points changed so far.
\<close>

fun increase_loop :: "bool \<Rightarrow> nat list \<Rightarrow> point list \<Rightarrow> point list \<times> error option" where
  "increase_loop lock [] pts = (pts, None)"
| "increase_loop lock (i # rest) pts =
     (if i = 0 \<and> lock then increase_loop lock rest pts
      else if i < length pts then
        increase_loop lock rest (pts[i := (fst (pts ! i), min Y_MAX (snd (pts ! i) + DELTA_Y))])
      else (pts, Some IndexError))"

fun decrease_loop :: "bool \<Rightarrow> nat list \<Rightarrow> point list \<Rightarrow> point list \<times> error option" where
  "decrease_loop lock [] pts = (pts, None)"
| "decrease_loop lock (i # rest) pts =
     (if i = 0 \<and> lock then decrease_loop lock rest pts
      else if i < length pts then
        decrease_loop lock rest (pts[i := (fst (pts ! i), max Y_MIN (snd (pts ! i) - DELTA_Y))])
      else (pts, Some IndexError))"

definition increase_all_points :: "editor2 \<Rightarrow> editor2 \<times> error option" where
  "increase_all_points st =
     (let (pts, err) = increase_loop (lock_low_speed st) (selected_indices st) (points st)
      in (st\<lparr>points := pts\<rparr>, err))"

definition decrease_all_points :: "editor2 \<Rightarrow> editor2 \<times> error option" where
  "decrease_all_points st =
     (let (pts, err) = decrease_loop (lock_low_speed st) (selected_indices st) (points st)
      in (st\<lparr>points := pts\<rparr>, err))"

subsection \<open>Hit test\<close>

text \<open>
  \<^verbatim>\<open>find_nearby_point\<close> has the same text in both scripts and differs only in the
  \<^verbatim>\<open>to_canvas_coords\<close> of its module, which is a parameter of the loop here. The
  loop is \<^verbatim>\<open>for idx, (pt_x, pt_y) in enumerate(self.points)\<close>.
\<close>

fun find_nearby_from ::
  "(real \<Rightarrow> real \<Rightarrow> real \<times> real) \<Rightarrow> nat \<Rightarrow> point list \<Rightarrow> real \<Rightarrow> real \<Rightarrow> nat option" where
  "find_nearby_from tcc idx [] x y = None"
| "find_nearby_from tcc idx ((pt_x, pt_y) # rest) x y =
     (let (cx, cy) = tcc pt_x pt_y in
      if (cx - x) ^ 2 + (cy - y) ^ 2 \<le> POINT_RADIUS ^ 2 then Some idx
      else find_nearby_from tcc (Suc idx) rest x y)"

definition find_nearby_point :: "editor \<Rightarrow> real \<Rightarrow> real \<Rightarrow> nat option" where
  "find_nearby_point st x y = find_nearby_from to_canvas_coords 0 (points st) x y"

definition find_nearby_point2 :: "editor2 \<Rightarrow> real \<Rightarrow> real \<Rightarrow> nat option" where
  "find_nearby_point2 st x y = find_nearby_from to_canvas_coords2 0 (points st) x y"

subsection \<open>Press, drag, release\<close>

definition on_press :: "editor \<Rightarrow> real \<Rightarrow> real \<Rightarrow> editor \<times> error option" where
  "on_press st event_x event_y =
     (case find_nearby_point st event_x event_y of
        None \<Rightarrow> (st, None)
      | Some idx \<Rightarrow>
          (let st1 = st\<lparr>point_index := Some idx\<rparr> in
           case getitem (points st1) idx of
             Inl e \<Rightarrow> (st1, Some e)
           | Inr pt \<Rightarrow>
               (let (cx, cy) = to_canvas_coords (fst pt) (snd pt)
                in (st1\<lparr>offset_x := cx - event_x, offset_y := cy - event_y\<rparr>, None))))"

text \<open>
  In simulator2.py a press on the locked point 0 returns at once. \<^verbatim>\<open>event.state & 0x0001\<close>
  is the lowest bit of the modifier mask.
\<close>

definition on_press2 :: "editor2 \<Rightarrow> real \<Rightarrow> real \<Rightarrow> int \<Rightarrow> editor2 \<times> error option" where
  "on_press2 st event_x event_y event_state =
     (let idx_opt = find_nearby_point2 st event_x event_y;
          shift_pressed = (event_state mod 2 \<noteq> 0)
      in
      if idx_opt = Some 0 \<and> lock_low_speed st then (st, None)
      else
        (case idx_opt of
           Some idx \<Rightarrow>
             (let sel = (if shift_pressed then
                           (if idx \<in> set (selected_indices st)
                            then removeAll idx (selected_indices st)
                            else selected_indices st @ [idx])
                         else [idx]);
                  st1 = st\<lparr>point_index := Some idx, selected_indices := sel\<rparr>
              in
              case getitem (points st1) idx of
                Inl e \<Rightarrow> (st1, Some e)
              | Inr pt \<Rightarrow>
                  (let (cx, cy) = to_canvas_coords2 (fst pt) (snd pt)
                   in (st1\<lparr>offset_x := cx - event_x, offset_y := cy - event_y\<rparr>, None)))
         | None \<Rightarrow> (st\<lparr>selected_indices := []\<rparr>, None)))"

text \<open>
  The two neighbour checks of \<^verbatim>\<open>on_drag\<close>, the same statements in both scripts:
  \<^verbatim>\<open>if idx > 0 and new_x < self.points[idx - 1][0]: new_x = self.points[idx - 1][0]\<close> and
  \<^verbatim>\<open>if idx < len(self.points) - 1 and new_x > self.points[idx + 1][0]: new_x = self.points[idx + 1][0]\<close>.
  The comparison with \<^verbatim>\<open>len - 1\<close> is on Python ints, so it is written on \<open>int\<close>.
\<close>

definition clamp_to_previous :: "point list \<Rightarrow> nat \<Rightarrow> real \<Rightarrow> error + real" where
  "clamp_to_previous pts idx new_x =
     (if idx > 0 then
        (case getitem pts (idx - 1) of
           Inl e \<Rightarrow> Inl e
         | Inr prev \<Rightarrow> Inr (if new_x < fst prev then fst prev else new_x))
      else Inr new_x)"

definition clamp_to_next :: "point list \<Rightarrow> nat \<Rightarrow> real \<Rightarrow> error + real" where
  "clamp_to_next pts idx new_x =
     (if int idx < int (length pts) - 1 then
        (case getitem pts (idx + 1) of
           Inl e \<Rightarrow> Inl e
         | Inr nxt \<Rightarrow> Inr (if new_x > fst nxt then fst nxt else new_x))
      else Inr new_x)"

text \<open>The assignment \<^verbatim>\<open>self.points[idx] = [new_x, new_y]\<close> raises IndexError out of range.\<close>

definition setitem :: "'a list \<Rightarrow> nat \<Rightarrow> 'a \<Rightarrow> error + 'a list" where
  "setitem xs i v = (if i < length xs then Inr (xs[i := v]) else Inl IndexError)"

definition on_drag :: "editor \<Rightarrow> real \<Rightarrow> real \<Rightarrow> editor \<times> error option" where
  "on_drag st event_x event_y =
     (case point_index st of
        None \<Rightarrow> (st, None)
      | Some idx \<Rightarrow>
          (let new_cx = event_x + offset_x st;
               new_cy = event_y + offset_y st;
               (new_x0, new_y0) = to_function_coords new_cx new_cy;
               new_x1 = max X_MIN (min X_MAX new_x0);
               new_y = max Y_MIN (min Y_MAX new_y0)
           in
           case clamp_to_previous (points st) idx new_x1 of
             Inl e \<Rightarrow> (st, Some e)
           | Inr new_x2 \<Rightarrow>
               (case clamp_to_next (points st) idx new_x2 of
                  Inl e \<Rightarrow> (st, Some e)
                | Inr new_x \<Rightarrow>
                    (case setitem (points st) idx (new_x, new_y) of
                       Inl e \<Rightarrow> (st, Some e)
                     | Inr pts \<Rightarrow> (st\<lparr>points := pts\<rparr>, None)))))"

definition on_drag2 :: "editor2 \<Rightarrow> real \<Rightarrow> real \<Rightarrow> editor2 \<times> error option" where
  "on_drag2 st event_x event_y =
     (case point_index st of
        None \<Rightarrow> (st, None)
      | Some idx \<Rightarrow>
          if idx = 0 \<and> lock_low_speed st then (st, None)
          else
          (let new_cx = event_x + offset_x st;
               new_cy = event_y + offset_y st;
               (new_x0, new_y0) = to_function_coords2 new_cx new_cy;
               new_x1 = max X_MIN (min X_MAX new_x0);
               new_y = max Y_MIN (min Y_MAX new_y0)
           in
           case clamp_to_previous (points st) idx new_x1 of
             Inl e \<Rightarrow> (st, Some e)
           | Inr new_x2 \<Rightarrow>
               (case clamp_to_next (points st) idx new_x2 of
                  Inl e \<Rightarrow> (st, Some e)
                | Inr new_x \<Rightarrow>
                    (case setitem (points st) idx (new_x, new_y) of
                       Inl e \<Rightarrow> (st, Some e)
                     | Inr pts \<Rightarrow> (st\<lparr>points := pts\<rparr>, None)))))"

definition on_release :: "'a editor_scheme \<Rightarrow> 'a editor_scheme" where
  "on_release st = st\<lparr>point_index := None\<rparr>"

subsection \<open>Device enumeration (simulator2.py)\<close>

text \<open>
  \<^verbatim>\<open>str.lower\<close> on the characters a \<open>char\<close> can hold: only A to Z change. The test
  \<^verbatim>\<open>"usb" in n\<close> is the contiguous-substring test \<open>sublist\<close>.
\<close>

definition lower_char :: "char \<Rightarrow> char" where
  "lower_char c =
     (let k = (of_char c :: nat) in if 65 \<le> k \<and> k \<le> 90 then char_of (k + 32) else c)"

definition lower :: "string \<Rightarrow> string" where
  "lower s = map lower_char s"

definition device_priority :: "string \<Rightarrow> nat" where
  "device_priority name =
     (let n = lower name in
      if sublist ''usb'' n then 1
      else if sublist ''mouse'' n then 2
      else if sublist ''optical'' n then 3
      else 100)"

text \<open>
  The argument is the list of lines that \<^verbatim>\<open>xinput list --name-only\<close> printed, or
  \<open>None\<close> when running it raised: the \<^verbatim>\<open>except\<close> branch then returns the empty list.
  \<^verbatim>\<open>list.sort(key=...)\<close> is a stable sort, as \<open>sort_key\<close> is.
\<close>

definition get_pointer_devices :: "string list option \<Rightarrow> string list" where
  "get_pointer_devices xinput_lines =
     (case xinput_lines of
        None \<Rightarrow> []
      | Some devices \<Rightarrow>
          (let pointer_devices =
                 filter (\<lambda>d. sublist ''mouse'' (lower d) \<or> sublist ''touchpad'' (lower d)) devices
           in sort_key device_priority pointer_devices))"

section \<open>The specification's reading of a record\<close>

text \<open>
  The sample of record \<open>i\<close> as the specification words it: the unsigned little-endian
  16-bit value of bytes \<open>8i\<close> and \<open>8i+1\<close> over 65536, added to the signed little-endian
  16-bit value of bytes \<open>8i+2\<close> and \<open>8i+3\<close>. Bytes \<open>8i+4\<close> to \<open>8i+7\<close> do not occur.
\<close>

definition spec_sample :: "int list \<Rightarrow> nat \<Rightarrow> real" where
  "spec_sample T i =
     (let frac_uint = T ! (8 * i) + 256 * T ! (8 * i + 1);
          raw = T ! (8 * i + 2) + 256 * T ! (8 * i + 3);
          int_part = (if raw < 32768 then raw else raw - 65536)
      in real_of_int int_part + real_of_int frac_uint / 65536)"

text \<open>
  The value of a chunk that decodes; it is used to name the results of the loop.
\<close>

definition chunk_real :: "int list \<Rightarrow> real" where
  "chunk_real c = (case chunk_value c of Inr v \<Rightarrow> v | Inl e \<Rightarrow> 0)"

section \<open>The curve invariant\<close>

text \<open>
  A control point lies in the declared bounds, and the inputs of a curve do not
  decrease from one index to the next.
\<close>

definition in_bounds :: "point \<Rightarrow> bool" where
  "in_bounds p = (X_MIN \<le> fst p \<and> fst p \<le> X_MAX \<and> Y_MIN \<le> snd p \<and> snd p \<le> Y_MAX)"

definition inputs_nondecreasing :: "point list \<Rightarrow> bool" where
  "inputs_nondecreasing pts = (\<forall>i. Suc i < length pts \<longrightarrow> fst (pts ! i) \<le> fst (pts ! Suc i))"

definition curve_ok :: "point list \<Rightarrow> bool" where
  "curve_ok pts = (inputs_nondecreasing pts \<and> list_all in_bounds pts)"

section \<open>The specification's batch adjustment\<close>

text \<open>
  \<open>adjustSelected(delta, selection)\<close> as the specification words it: every point whose
  index is in the selection and is not excluded by the lock policy has \<open>delta\<close> added
  to its output, clamped to \<open>[Y_MIN, Y_MAX]\<close>; every other point stays as it is.
\<close>

definition adjust_selected :: "real \<Rightarrow> bool \<Rightarrow> nat set \<Rightarrow> point list \<Rightarrow> point list" where
  "adjust_selected delta lock selection pts =
     map (\<lambda>i. if i \<in> selection \<and> \<not> (lock \<and> i = 0)
               then (fst (pts ! i), max Y_MIN (min Y_MAX (snd (pts ! i) + delta)))
               else pts ! i) [0..<length pts]"

section \<open>Euclidean distance on the canvas\<close>

text \<open>
  A rendered position \<open>c\<close> lies within \<open>radius\<close> of the query position \<open>(x, y)\<close>.
\<close>

definition within_radius :: "real \<times> real \<Rightarrow> real \<Rightarrow> real \<Rightarrow> real \<Rightarrow> bool" where
  "within_radius c x y radius = (sqrt ((fst c - x) ^ 2 + (snd c - y) ^ 2) \<le> radius)"

section \<open>The specification's device filter and priority classes\<close>

text \<open>
  Containing a word case-insensitively, stated without the code's \<open>lower\<close>: two
  characters are the same letter when they are equal or are the capital and the small
  form of one of the 26 letters, and a name contains a word when, at some position of
  the name, the characters that follow are letter by letter the same as the word's.
\<close>

definition capital_letters :: string where
  "capital_letters = ''ABCDEFGHIJKLMNOPQRSTUVWXYZ''"

definition small_letters :: string where
  "small_letters = ''abcdefghijklmnopqrstuvwxyz''"

definition same_letter :: "char \<Rightarrow> char \<Rightarrow> bool" where
  "same_letter a b =
     (a = b \<or> (a, b) \<in> set (zip capital_letters small_letters)
            \<or> (b, a) \<in> set (zip capital_letters small_letters))"

fun matches_here :: "string \<Rightarrow> string \<Rightarrow> bool" where
  "matches_here [] name = True"
| "matches_here (w # word) [] = False"
| "matches_here (w # word) (c # name) = (same_letter c w \<and> matches_here word name)"

fun contains_ignoring_case :: "string \<Rightarrow> string \<Rightarrow> bool" where
  "contains_ignoring_case word [] = (word = [])"
| "contains_ignoring_case word (c # name) =
     (matches_here word (c # name) \<or> contains_ignoring_case word name)"

text \<open>
  A pointer-class name contains "mouse" or "touchpad", case-insensitively. The priority
  rule orders the classes: names containing "usb", then names containing "mouse", then
  names containing "optical", then all others.
\<close>

definition is_pointer_name :: "string \<Rightarrow> bool" where
  "is_pointer_name d =
     (contains_ignoring_case ''mouse'' d \<or> contains_ignoring_case ''touchpad'' d)"

definition priority_class :: "string \<Rightarrow> nat" where
  "priority_class d =
     (if contains_ignoring_case ''usb'' d then 0
      else if contains_ignoring_case ''mouse'' d then 1
      else if contains_ignoring_case ''optical'' d then 2
      else 3)"

section \<open>The states a session of simulator2.py can reach\<close>

text \<open>
  The invariant of the editor state: the curve invariant, and a selection that is a set
  of indices of the curve. The constructor ends with \<open>update_curve_from_options\<close>, as
  does every toggle of a curve option; every other step is one of the handlers or a
  toggle of the lock.
\<close>

definition editor2_ok :: "editor2 \<Rightarrow> bool" where
  "editor2_ok st =
     (curve_ok (points st) \<and> distinct (selected_indices st)
      \<and> (\<forall>i\<in>set (selected_indices st). i < length (points st)))"

inductive reachable2 :: "editor2 \<Rightarrow> bool" where
  preset: "reachable2 (update_curve_from_options2 st)"
| lock: "reachable2 st \<Longrightarrow> reachable2 (st\<lparr>lock_low_speed := b\<rparr>)"
| press: "reachable2 st \<Longrightarrow> reachable2 (fst (on_press2 st event_x event_y event_state))"
| drag: "reachable2 st \<Longrightarrow> reachable2 (fst (on_drag2 st event_x event_y))"
| release: "reachable2 st \<Longrightarrow> reachable2 (on_release st)"
| increase: "reachable2 st \<Longrightarrow> reachable2 (fst (increase_all_points st))"
| decrease: "reachable2 st \<Longrightarrow> reachable2 (fst (decrease_all_points st))"

section \<open>simulator.py in binary64\<close>

text \<open>
  A Python float is an IEEE 754 binary64 number and every arithmetic operation returns
  the exact result rounded to the nearest such number, ties to the even significand.
  \<open>binary64 x\<close> is that rounding of a real \<open>x\<close>: the quantum \<open>q\<close> is the power of two
  with \<open>2^52 q \<le> |x| < 2^53 q\<close>, not below \<open>2^-1074\<close> (the subnormal spacing), and
  \<open>x\<close> is rounded to a multiple of \<open>q\<close>. The search for \<open>q\<close> starts at 1 and halves at
  most 1074 times or doubles at most 971 times; results beyond the largest finite
  number (infinities) are outside this reading.
\<close>

definition round_half_even :: "real \<Rightarrow> int" where
  "round_half_even y =
     (let f = \<lfloor>y\<rfloor>; d = y - of_int f
      in if d < 1 / 2 then f else if 1 / 2 < d then f + 1 else if even f then f else f + 1)"

fun quantum_down :: "nat \<Rightarrow> real \<Rightarrow> real \<Rightarrow> real" where
  "quantum_down 0 a q = q"
| "quantum_down (Suc n) a q = (if a < 2 ^ 52 * q then quantum_down n a (q / 2) else q)"

fun quantum_up :: "nat \<Rightarrow> real \<Rightarrow> real \<Rightarrow> real" where
  "quantum_up 0 a q = q"
| "quantum_up (Suc n) a q = (if 2 ^ 53 * q \<le> a then quantum_up n a (2 * q) else q)"

definition quantum :: "real \<Rightarrow> real" where
  "quantum x = (if \<bar>x\<bar> < 2 ^ 52 then quantum_down 1074 \<bar>x\<bar> 1 else quantum_up 971 \<bar>x\<bar> 1)"

definition binary64 :: "real \<Rightarrow> real" where
  "binary64 x = (if x = 0 then 0 else quantum x * of_int (round_half_even (x / quantum x)))"


text \<open>
  The two transforms of simulator.py with the rounding after each operation, in the
  order Python evaluates them. The module constants are ints or floats that binary64
  holds exactly.
\<close>

definition to_canvas_coords_b64 :: "real \<Rightarrow> real \<Rightarrow> real \<times> real" where
  "to_canvas_coords_b64 x y =
     (let canvas_x = binary64 (binary64 (binary64 (x - X_MIN) / binary64 (X_MAX - X_MIN))
                                * CANVAS_WIDTH);
          canvas_y = binary64 (CANVAS_HEIGHT
                                - binary64 (binary64 (binary64 (y - Y_MIN) / binary64 (Y_MAX - Y_MIN))
                                            * CANVAS_HEIGHT))
      in (canvas_x, canvas_y))"

definition to_function_coords_b64 :: "real \<Rightarrow> real \<Rightarrow> real \<times> real" where
  "to_function_coords_b64 canvas_x canvas_y =
     (let x = binary64 (binary64 (binary64 (canvas_x / CANVAS_WIDTH) * binary64 (X_MAX - X_MIN))
                        + X_MIN);
          y = binary64 (binary64 (binary64 (binary64 (CANVAS_HEIGHT - canvas_y) / CANVAS_HEIGHT)
                                  * binary64 (Y_MAX - Y_MIN))
                        + Y_MIN)
      in (x, y))"


text \<open>
  \<open>on_press\<close> and \<open>on_drag\<close> of simulator.py in binary64. Tk delivers the event
  position as ints, which the subtraction and the addition first convert to floats. The
  comparisons, \<open>min\<close> and \<open>max\<close> are exact on floats. The distance test of the hit test
  is kept in exact arithmetic: its rounding matters only within a rounding error of
  distance \<open>POINT_RADIUS\<close>.
\<close>

definition on_press_b64 :: "editor \<Rightarrow> int \<Rightarrow> int \<Rightarrow> editor \<times> error option" where
  "on_press_b64 st event_x event_y =
     (case find_nearby_from to_canvas_coords_b64 0 (points st) (of_int event_x) (of_int event_y) of
        None \<Rightarrow> (st, None)
      | Some idx \<Rightarrow>
          (let st1 = st\<lparr>point_index := Some idx\<rparr> in
           case getitem (points st1) idx of
             Inl e \<Rightarrow> (st1, Some e)
           | Inr pt \<Rightarrow>
               (let (cx, cy) = to_canvas_coords_b64 (fst pt) (snd pt)
                in (st1\<lparr>offset_x := binary64 (cx - binary64 (of_int event_x)),
                         offset_y := binary64 (cy - binary64 (of_int event_y))\<rparr>, None))))"

definition on_drag_b64 :: "editor \<Rightarrow> int \<Rightarrow> int \<Rightarrow> editor \<times> error option" where
  "on_drag_b64 st event_x event_y =
     (case point_index st of
        None \<Rightarrow> (st, None)
      | Some idx \<Rightarrow>
          (let new_cx = binary64 (binary64 (of_int event_x) + offset_x st);
               new_cy = binary64 (binary64 (of_int event_y) + offset_y st);
               (new_x0, new_y0) = to_function_coords_b64 new_cx new_cy;
               new_x1 = max X_MIN (min X_MAX new_x0);
               new_y = max Y_MIN (min Y_MAX new_y0)
           in
           case clamp_to_previous (points st) idx new_x1 of
             Inl e \<Rightarrow> (st, Some e)
           | Inr new_x2 \<Rightarrow>
               (case clamp_to_next (points st) idx new_x2 of
                  Inl e \<Rightarrow> (st, Some e)
                | Inr new_x \<Rightarrow>
                    (case setitem (points st) idx (new_x, new_y) of
                       Inl e \<Rightarrow> (st, Some e)
                     | Inr pts \<Rightarrow> (st\<lparr>points := pts\<rparr>, None)))))"

section \<open>Properties of the decoder\<close>

subsection \<open>The loop as a map over its rounds\<close>

lemma map_upt_shift: "map f [0..<Suc n] = f 0 # map (\<lambda>k. f (Suc k)) [0..<n]"
  by (simp only: upt_conv_Cons [OF zero_less_Suc] list.map map_Suc_upt [symmetric] map_map o_def)

lemma rounds_step: "i < n \<Longrightarrow> (n - i + 7) div 8 = Suc ((n - (i + 8) + 7) div (8::nat))"
proof (cases "i + 8 \<le> n")
  case True
  assume "i < n"
  from True obtain m where m: "n = i + 8 + m" using le_Suc_ex by blast
  show ?thesis unfolding m by simp
next
  case False
  assume a: "i < n"
  from False have z: "n - (i + 8) = 0" by simp
  from a False have b: "8 \<le> n - i + 7" "n - i + 7 < 16" by simp_all
  then have "(n - i + 7) div 8 = 1" by simp
  then show ?thesis unfolding z by simp
qed

lemma hex_loop_map:
  "(\<And>k. k < (length xs - i + 7) div 8 \<Longrightarrow>
         chunk_value (slice xs (i + 8 * k) (i + 8 * k + 8)) = Inr (g (i + 8 * k)))
   \<Longrightarrow> hex_loop xs i acc = Inr (acc @ map (\<lambda>k. g (i + 8 * k)) [0..<(length xs - i + 7) div 8])"
proof (induction xs i acc rule: hex_loop.induct)
  case (1 xs i acc)
  show ?case
  proof (cases "i < length xs")
    case False
    then show ?thesis by (simp add: hex_loop.simps)
  next
    case True
    let ?r = "(length xs - (i + 8) + 7) div 8"
    have n: "(length xs - i + 7) div 8 = Suc ?r"
      using True by (rule rounds_step)
    have v: "chunk_value (slice xs i (i + 8)) = Inr (g i)"
      using "1.prems" [of 0] n by simp
    have rest: "chunk_value (slice xs (i + 8 + 8 * k) (i + 8 + 8 * k + 8)) = Inr (g (i + 8 + 8 * k))"
      if "k < ?r" for k
      using "1.prems" [of "Suc k"] that n by (simp add: add.assoc)
    have "hex_loop xs i acc = hex_loop xs (i + 8) (acc @ [g i])"
      using True v by (subst hex_loop.simps) simp
    also have "\<dots> = Inr ((acc @ [g i]) @ map (\<lambda>k. g (i + 8 + 8 * k)) [0..<?r])"
      using "1.IH" [OF True v rest] by simp
    finally show ?thesis
      unfolding n map_upt_shift by (simp add: add.assoc)
  qed
qed

subsection \<open>One whole record\<close>

lemma chunk_value_take4: "chunk_value c = chunk_value (take 4 c)"
proof -
  have a: "slice (take 4 c) 2 4 = slice c 2 4" by (simp add: slice_def take_drop)
  have b: "slice (take 4 c) 0 2 = slice c 0 2" by (simp add: slice_def)
  show ?thesis unfolding chunk_value_def a b ..
qed

lemma take4_record:
  "i + 8 \<le> length T \<Longrightarrow> take 4 (slice T i (i + 8)) = [T ! i, T ! (i + 1), T ! (i + 2), T ! (i + 3)]"
proof -
  assume a: "i + 8 \<le> length T"
  have d: "drop (i + k) T = T ! (i + k) # drop (i + Suc k) T" if "k < 4" for k
    using a that by (simp add: Cons_nth_drop_Suc)
  have "take 4 (slice T i (i + 8)) = take 4 (drop i T)" by (simp add: slice_def)
  also have "\<dots> = [T ! i, T ! (i + 1), T ! (i + 2), T ! (i + 3)]"
    using d [of 0] d [of 1] d [of 2] d [of 3] by (simp add: numeral_eq_Suc)
  finally show ?thesis .
qed

lemma chunk_value_four:
  "is_byte a \<Longrightarrow> is_byte b \<Longrightarrow> is_byte c \<Longrightarrow> is_byte d \<Longrightarrow>
   chunk_value [a, b, c, d] =
     Inr (real_of_int (if c + 256 * d < 32768 then c + 256 * d else c + 256 * d - 65536)
          + real_of_int (a + 256 * b) / 65536)"
  by (simp add: chunk_value_def from_bytes_def slice_def Let_def not_less)

lemma chunk_value_record:
  assumes "8 * i + 8 \<le> length T" and "\<And>k. k < 4 \<Longrightarrow> is_byte (T ! (8 * i + k))"
  shows "chunk_value (slice T (8 * i) (8 * i + 8)) = Inr (spec_sample T i)"
proof -
  have b: "is_byte (T ! (8 * i))" "is_byte (T ! (8 * i + 1))"
    "is_byte (T ! (8 * i + 2))" "is_byte (T ! (8 * i + 3))"
    using assms(2) [of 0] assms(2) [of 1] assms(2) [of 2] assms(2) [of 3] by simp_all
  show ?thesis
    by (subst chunk_value_take4)
      (simp only: take4_record [OF assms(1)] chunk_value_four [OF b] spec_sample_def Let_def)
qed

lemma hex_to_decimal_records:
  assumes len: "length T = 8 * n"
    and bytes: "\<And>i k. i < n \<Longrightarrow> k < 4 \<Longrightarrow> is_byte (T ! (8 * i + k))"
  shows "hex_to_decimal T = Inr (map (spec_sample T) [0..<n])"
proof -
  have r: "(length T - 0 + 7) div 8 = n" using len by simp
  have "hex_loop T 0 [] =
        Inr ([] @ map (\<lambda>k. (\<lambda>j. spec_sample T (j div 8)) (0 + 8 * k)) [0..<(length T - 0 + 7) div 8])"
  proof (rule hex_loop_map)
    fix k assume "k < (length T - 0 + 7) div 8"
    then have k: "k < n" using r by simp
    then have "8 * k + 8 \<le> length T" using len by simp
    then show "chunk_value (slice T (0 + 8 * k) (0 + 8 * k + 8)) = Inr (spec_sample T ((0 + 8 * k) div 8))"
      using chunk_value_record [of k T] bytes [OF k] by simp
  qed
  then show ?thesis unfolding hex_to_decimal_def r by simp
qed

subsection \<open>Whole records\<close>

text \<open>
  Claim C1. For a byte table of length \<open>8n\<close>, \<open>hex_to_decimal\<close> returns exactly \<open>n\<close>
  values in record order; value \<open>i\<close> is the signed 16-bit little-endian integer at bytes
  \<open>8i+2, 8i+3\<close> plus the unsigned 16-bit little-endian value at bytes \<open>8i, 8i+1\<close> over
  65536. Any table \<open>T'\<close> of the same length that agrees with \<open>T\<close> on the first four
  bytes of every record decodes to the same values, whatever its padding holds. The
  two known vectors decode to \<open>0x6e15 / 65536\<close> and to 1.25.
\<close>

theorem hex_to_decimal_whole_records:
  fixes T T' :: "int list"
  shows "(list_all is_byte T \<and> length T = 8 * n \<longrightarrow>
           (\<exists>vs. hex_to_decimal T = Inr vs \<and> length vs = n \<and>
                 (\<forall>i<n. vs ! i = spec_sample T i) \<and>
                 (length T' = 8 * n \<and> (\<forall>i<n. \<forall>k<4. T' ! (8 * i + k) = T ! (8 * i + k))
                    \<longrightarrow> hex_to_decimal T' = Inr vs)))
         \<and> hex_to_decimal [0x15, 0x6e, 0, 0, 0, 0, 0, 0] = Inr [0x6e15 / 65536]
         \<and> hex_to_decimal [0x00, 0x40, 0x01, 0, 0, 0, 0, 0] = Inr [125 / 100]"
proof (intro conjI impI)
  assume a: "list_all is_byte T \<and> length T = 8 * n"
  then have len: "length T = 8 * n" and all: "list_all is_byte T" by simp_all
  have bytes: "is_byte (T ! (8 * i + k))" if "i < n" "k < 4" for i k
  proof -
    have "8 * i + k < length T" using that len by simp
    then show ?thesis using all by (simp add: list_all_length)
  qed
  have T: "hex_to_decimal T = Inr (map (spec_sample T) [0..<n])"
    using len bytes by (rule hex_to_decimal_records)
  have T': "hex_to_decimal T' = Inr (map (spec_sample T) [0..<n])"
    if h: "length T' = 8 * n \<and> (\<forall>i<n. \<forall>k<4. T' ! (8 * i + k) = T ! (8 * i + k))"
  proof -
    have eq: "T' ! (8 * i + k) = T ! (8 * i + k)" if "i < n" "k < 4" for i k
      using h that by blast
    have b': "is_byte (T' ! (8 * i + k))" if "i < n" "k < 4" for i k
      using eq [OF that] bytes [OF that] by simp
    have s: "spec_sample T' i = spec_sample T i" if "i < n" for i
      using eq [OF that, of 0] eq [OF that, of 1] eq [OF that, of 2] eq [OF that, of 3]
      by (simp add: spec_sample_def)
    have "hex_to_decimal T' = Inr (map (spec_sample T') [0..<n])"
      using h b' by (intro hex_to_decimal_records) simp_all
    also have "map (spec_sample T') [0..<n] = map (spec_sample T) [0..<n]"
      using s by simp
    finally show ?thesis .
  qed
  show "\<exists>vs. hex_to_decimal T = Inr vs \<and> length vs = n \<and>
             (\<forall>i<n. vs ! i = spec_sample T i) \<and>
             (length T' = 8 * n \<and> (\<forall>i<n. \<forall>k<4. T' ! (8 * i + k) = T ! (8 * i + k))
                \<longrightarrow> hex_to_decimal T' = Inr vs)"
    using T T' by (intro exI [of _ "map (spec_sample T) [0..<n]"]) simp
next
  show "hex_to_decimal [0x15, 0x6e, 0, 0, 0, 0, 0, 0] = Inr [0x6e15 / 65536]"
    by (simp add: hex_to_decimal_def hex_loop.simps chunk_value_def from_bytes_def slice_def is_byte_def)
next
  show "hex_to_decimal [0x00, 0x40, 0x01, 0, 0, 0, 0, 0] = Inr [125 / 100]"
    by (simp add: hex_to_decimal_def hex_loop.simps chunk_value_def from_bytes_def slice_def is_byte_def)
qed

theorem hex_to_decimal_whole_records_witness:
  "list_all is_byte [0x29, 0xdc, 0x03, 0x00, 0, 0, 0, 0]
   \<and> length [0x29 :: int, 0xdc, 0x03, 0x00, 0, 0, 0, 0] = 8 * 1
   \<and> hex_to_decimal [0x29, 0xdc, 0x03, 0x00, 0, 0, 0, 0] = Inr [252969 / 65536]
   \<and> hex_to_decimal [0x29, 0xdc, 0x03, 0x00, 7, 255, 1000, -3] = Inr [252969 / 65536]"
proof -
  let ?T = "[0x29 :: int, 0xdc, 0x03, 0x00, 0, 0, 0, 0]"
  let ?T' = "[0x29 :: int, 0xdc, 0x03, 0x00, 7, 255, 1000, -3]"
  have h: "list_all is_byte ?T \<and> length ?T = 8 * 1" by (simp add: is_byte_def)
  from hex_to_decimal_whole_records [of ?T 1 ?T'] h
  obtain vs where vs: "hex_to_decimal ?T = Inr vs" "length vs = 1" "\<forall>i<1. vs ! i = spec_sample ?T i"
    and imp: "length ?T' = 8 * 1 \<and> (\<forall>i<1. \<forall>k<4. ?T' ! (8 * i + k) = ?T ! (8 * i + k))
              \<longrightarrow> hex_to_decimal ?T' = Inr vs"
    by blast
  have agree: "\<forall>i<1. \<forall>k<4. ?T' ! (8 * i + k) = ?T ! (8 * i + k)"
    by (simp add: nth_Cons' )
  have v0: "vs ! 0 = 252969 / 65536" using vs(3) by (simp add: spec_sample_def)
  have "vs = [vs ! 0]" using vs(2) by (cases vs) simp_all
  then have "vs = [252969 / 65536]" using v0 by simp
  then show ?thesis using h vs(1) imp agree by simp
qed

subsection \<open>Tables of any length\<close>

lemma list_all_slice: "list_all P xs \<Longrightarrow> list_all P (slice xs a b)"
  unfolding slice_def list_all_iff by (meson in_set_dropD in_set_takeD)

lemma chunk_value_bytes: "list_all is_byte c \<Longrightarrow> chunk_value c = Inr (chunk_real c)"
proof -
  assume a: "list_all is_byte c"
  have "list_all is_byte (slice c 2 4)" "list_all is_byte (slice c 0 2)"
    using a by (rule list_all_slice)+
  then show ?thesis by (simp add: chunk_real_def chunk_value_def from_bytes_def Let_def)
qed

lemma hex_to_decimal_bytes:
  assumes "list_all is_byte T"
  shows "hex_to_decimal T =
         Inr (map (\<lambda>k. chunk_real (slice T (8 * k) (8 * k + 8))) [0..<(length T + 7) div 8])"
proof -
  have "hex_loop T 0 [] =
        Inr ([] @ map (\<lambda>k. (\<lambda>j. chunk_real (slice T j (j + 8))) (0 + 8 * k)) [0..<(length T - 0 + 7) div 8])"
    by (rule hex_loop_map) (simp add: chunk_value_bytes [OF list_all_slice [OF assms]])
  then show ?thesis by (simp add: hex_to_decimal_def)
qed

lemma div8_bounds: "8 * (n div 8) \<le> (n::nat)" "n < 8 * (n div 8) + 8"
proof -
  have "n = 8 * (n div 8) + n mod 8" by simp
  moreover have "n mod 8 < 8" by simp
  ultimately show "8 * (n div 8) \<le> n" "n < 8 * (n div 8) + 8" by linarith+
qed

lemma rounds_partial: "\<not> 8 dvd (n::nat) \<Longrightarrow> (n + 7) div 8 = Suc (n div 8)"
proof -
  assume a: "\<not> 8 dvd n"
  define q where "q = n div 8"
  have b: "8 * q \<le> n" "n < 8 * q + 8" unfolding q_def by (rule div8_bounds)+
  have "n \<noteq> 8 * q" using a by auto
  then have "Suc q * 8 \<le> n + 7" "n + 7 < Suc (Suc q) * 8" using b by simp_all
  then have "(n + 7) div 8 = Suc q" by (intro div_nat_eqI) simp_all
  then show ?thesis unfolding q_def .
qed
lemma slice_take_inside: "b \<le> m \<Longrightarrow> slice (take m T) a b = slice T a b"
  by (simp add: slice_def drop_take min_def)

lemma slice_tail: "length T \<le> b \<Longrightarrow> slice T a b = drop a T"
  by (simp add: slice_def)

text \<open>
  Claim C3 as the specification states it: a byte table whose length is not a multiple
  of 8 makes the decoder fail. The three-byte table \<open>15 6e 00\<close> is such a table and
  the decoder returns one value for it.
\<close>

theorem hex_to_decimal_partial_table_counterexample:
  "list_all is_byte [0x15, 0x6e, 0x00] \<and> \<not> 8 dvd length [0x15 :: int, 0x6e, 0x00]
   \<and> hex_to_decimal [0x15, 0x6e, 0x00] = Inr [0x6e15 / 65536]"
proof -
  have "\<not> 8 dvd length [0x15 :: int, 0x6e, 0x00]" by code_simp
  then show ?thesis
    by (simp add: hex_to_decimal_def hex_loop.simps chunk_value_def from_bytes_def slice_def is_byte_def)
qed

text \<open>
  Claim C3, amended. \<open>hex_to_decimal\<close> checks no length. On a byte table whose length
  is not a multiple of 8 it returns \<open>length T div 8 + 1\<close> values: the values of the whole
  records, which are what the table cut down to its whole records decodes to, followed
  by one value read from the short chunk at the end.
\<close>

theorem hex_to_decimal_partial_table:
  assumes "list_all is_byte T" and "\<not> 8 dvd length T"
  shows "\<exists>vs v. hex_to_decimal T = Inr (vs @ [v])
               \<and> length vs = length T div 8
               \<and> hex_to_decimal (take (8 * (length T div 8)) T) = Inr vs
               \<and> chunk_value (drop (8 * (length T div 8)) T) = Inr v"
proof -
  let ?q = "length T div 8"
  let ?T0 = "take (8 * ?q) T"
  let ?f = "\<lambda>k. chunk_real (slice T (8 * k) (8 * k + 8))"
  have r: "(length T + 7) div 8 = Suc ?q" using assms(2) by (rule rounds_partial)
  have full: "hex_to_decimal T = Inr (map ?f [0..<?q] @ [?f ?q])"
    using hex_to_decimal_bytes [OF assms(1)] unfolding r by simp
  have b0: "list_all is_byte ?T0" using assms(1) by (simp add: list_all_iff) (meson in_set_takeD)
  have l0: "length ?T0 = 8 * ?q" by simp
  have r0: "(length ?T0 + 7) div 8 = ?q" unfolding l0 by simp
  have same: "slice ?T0 (8 * k) (8 * k + 8) = slice T (8 * k) (8 * k + 8)" if "k < ?q" for k
    using that by (intro slice_take_inside) simp
  have "hex_to_decimal ?T0 = Inr (map (\<lambda>k. chunk_real (slice ?T0 (8 * k) (8 * k + 8))) [0..<?q])"
    using hex_to_decimal_bytes [OF b0] unfolding r0 .
  also have "map (\<lambda>k. chunk_real (slice ?T0 (8 * k) (8 * k + 8))) [0..<?q] = map ?f [0..<?q]"
    using same by simp
  finally have whole: "hex_to_decimal ?T0 = Inr (map ?f [0..<?q])" .
  have "length T \<le> 8 * ?q + 8" using div8_bounds(2) [of "length T"] by simp
  then have tail: "slice T (8 * ?q) (8 * ?q + 8) = drop (8 * ?q) T" by (rule slice_tail)
  have "chunk_value (slice T (8 * ?q) (8 * ?q + 8)) = Inr (?f ?q)"
    using assms(1) by (intro chunk_value_bytes list_all_slice)
  then have last: "chunk_value (drop (8 * ?q) T) = Inr (?f ?q)" unfolding tail .
  show ?thesis using full whole last by (intro exI [of _ "map ?f [0..<?q]"] exI [of _ "?f ?q"]) simp
qed

theorem hex_to_decimal_partial_table_witness:
  "list_all is_byte [0, 0x40, 1, 0, 0, 0, 0, 0, 0x15, 0x6e, 0xff]
   \<and> \<not> 8 dvd length [0 :: int, 0x40, 1, 0, 0, 0, 0, 0, 0x15, 0x6e, 0xff]
   \<and> hex_to_decimal [0, 0x40, 1, 0, 0, 0, 0, 0, 0x15, 0x6e, 0xff] = Inr [125 / 100, - 1 + 0x6e15 / 65536]"
proof -
  let ?T = "[0 :: int, 0x40, 1, 0, 0, 0, 0, 0, 0x15, 0x6e, 0xff]"
  have h1: "list_all is_byte ?T" by (simp add: is_byte_def)
  have h2: "\<not> 8 dvd length ?T" by code_simp
  obtain vs v where r: "hex_to_decimal ?T = Inr (vs @ [v])"
    "hex_to_decimal (take (8 * (length ?T div 8)) ?T) = Inr vs"
    "chunk_value (drop (8 * (length ?T div 8)) ?T) = Inr v"
    using hex_to_decimal_partial_table [OF h1 h2] by blast
  have "vs = [125 / 100]" using r(2)
    by (simp add: hex_to_decimal_def hex_loop.simps chunk_value_def from_bytes_def slice_def is_byte_def)
  moreover have "v = - 1 + 0x6e15 / 65536" using r(3)
    by (simp add: chunk_value_def from_bytes_def slice_def is_byte_def)
  ultimately show ?thesis using h1 h2 r(1) by simp
qed

subsection \<open>Pairing the two axes\<close>

text \<open>
  Claim C4 as the specification states it: sequences of different lengths make the
  pairing fail. An X table of two records and a Y table of one record decode to
  sequences of lengths 2 and 1, and the pairing returns one pair.
\<close>

theorem coordinates_mismatch_counterexample:
  "hex_to_decimal [0, 0, 0, 0, 0, 0, 0, 0, 0, 0x40, 1, 0, 0, 0, 0, 0] = Inr [0, 125 / 100]
   \<and> hex_to_decimal [0, 0, 2, 0, 0, 0, 0, 0] = Inr [2]
   \<and> coordinates [0, 0, 0, 0, 0, 0, 0, 0, 0, 0x40, 1, 0, 0, 0, 0, 0] [0, 0, 2, 0, 0, 0, 0, 0] = Inr [(0, 2)]"
  by (simp add: coordinates_def hex_to_decimal_def hex_loop.simps chunk_value_def from_bytes_def slice_def is_byte_def)

text \<open>
  Claim C4, amended. The pairing is \<open>zip\<close>, which checks no length and does not fail:
  when the tables decode to \<open>x_points\<close> and \<open>y_points\<close> it returns as many pairs as the
  shorter sequence has values, pair \<open>i\<close> being \<open>(x_points ! i, y_points ! i)\<close>; so
  sequences of equal length \<open>n\<close> give exactly \<open>n\<close> pairs.
\<close>

theorem coordinates_zip:
  assumes "hex_to_decimal x_curve = Inr x_points" and "hex_to_decimal y_curve = Inr y_points"
  shows "\<exists>ps. coordinates x_curve y_curve = Inr ps
             \<and> length ps = min (length x_points) (length y_points)
             \<and> (\<forall>i<length ps. ps ! i = (x_points ! i, y_points ! i))
             \<and> (length x_points = length y_points \<longrightarrow> length ps = length x_points)"
  using assms by (simp add: coordinates_def)

theorem coordinates_zip_witness:
  "hex_to_decimal smooth_mouse_x_curve = Inr [0, 28181 / 65536, 5 / 4, 252969 / 65536, 40]
   \<and> hex_to_decimal smooth_mouse_y_curve = Inr [0, 70141 / 65536, 265 / 64, 1215 / 64, 1775 / 1024]
   \<and> coordinates smooth_mouse_x_curve smooth_mouse_y_curve =
       Inr [(0, 0), (28181 / 65536, 70141 / 65536), (5 / 4, 265 / 64), (252969 / 65536, 1215 / 64), (40, 1775 / 1024)]"
proof -
  have x: "hex_to_decimal smooth_mouse_x_curve = Inr [0, 28181 / 65536, 5 / 4, 252969 / 65536, 40]"
    by (simp add: smooth_mouse_x_curve_def hex_to_decimal_def hex_loop.simps chunk_value_def from_bytes_def slice_def is_byte_def)
  have y: "hex_to_decimal smooth_mouse_y_curve = Inr [0, 70141 / 65536, 265 / 64, 1215 / 64, 1775 / 1024]"
    by (simp add: smooth_mouse_y_curve_def hex_to_decimal_def hex_loop.simps chunk_value_def from_bytes_def slice_def is_byte_def)
  obtain ps where ps: "coordinates smooth_mouse_x_curve smooth_mouse_y_curve = Inr ps"
    "length ps = min (length [0 :: real, 28181 / 65536, 5 / 4, 252969 / 65536, 40])
                     (length [0 :: real, 70141 / 65536, 265 / 64, 1215 / 64, 1775 / 1024])"
    "\<forall>i<length ps. ps ! i = ([0, 28181 / 65536, 5 / 4, 252969 / 65536, 40] ! i,
                              [0, 70141 / 65536, 265 / 64, 1215 / 64, 1775 / 1024] ! i)"
    using coordinates_zip [OF x y] by blast
  have l: "length ps = 5" using ps(2) by simp
  have "ps = [ps ! 0, ps ! 1, ps ! 2, ps ! 3, ps ! 4]"
    using l by (simp add: list_eq_iff_nth_eq nth_Cons' numeral_eq_Suc less_Suc_eq)
  also have "\<dots> = [(0, 0), (28181 / 65536, 70141 / 65536), (5 / 4, 265 / 64), (252969 / 65536, 1215 / 64), (40, 1775 / 1024)]"
    using ps(3) l by simp
  finally show ?thesis using x y ps(1) by simp
qed

section \<open>Properties of the curve editors\<close>

subsection \<open>Dragging a point\<close>

lemma clamp_to_previous_cases:
  "clamp_to_previous pts idx x = Inr x' \<Longrightarrow>
     (idx = 0 \<and> x' = x) \<or> (0 < idx \<and> idx - 1 < length pts \<and> x' = max x (fst (pts ! (idx - 1))))"
  by (auto simp: clamp_to_previous_def getitem_def split: if_splits)

lemma clamp_to_next_cases:
  "clamp_to_next pts idx x = Inr x' \<Longrightarrow>
     (\<not> Suc idx < length pts \<and> x' = x) \<or> (Suc idx < length pts \<and> x' = min x (fst (pts ! Suc idx)))"
  by (auto simp: clamp_to_next_def getitem_def split: if_splits)

lemma setitem_cases: "setitem xs i v = Inr ys \<Longrightarrow> i < length xs \<and> ys = xs[i := v]"
  by (auto simp: setitem_def split: if_splits)

lemma in_range_no_error:
  assumes "idx < length pts"
  shows "\<exists>x2 x3 pts'. clamp_to_previous pts idx x1 = Inr x2 \<and> clamp_to_next pts idx x2 = Inr x3
           \<and> setitem pts idx (x3, y) = Inr pts'"
  using assms by (auto simp: clamp_to_previous_def clamp_to_next_def setitem_def getitem_def)

lemma move_keeps_curve:
  assumes ok: "curve_ok pts"
    and x1: "X_MIN \<le> x1" "x1 \<le> X_MAX" and y: "Y_MIN \<le> y" "y \<le> Y_MAX"
    and p: "clamp_to_previous pts idx x1 = Inr x2"
    and n: "clamp_to_next pts idx x2 = Inr x3"
    and s: "setitem pts idx (x3, y) = Inr pts'"
  shows "curve_ok pts'"
proof -
  from s have idx: "idx < length pts" and pts': "pts' = pts[idx := (x3, y)]"
    by (auto dest: setitem_cases)
  have mono: "fst (pts ! i) \<le> fst (pts ! Suc i)" if "Suc i < length pts" for i
    using ok that by (simp add: curve_ok_def inputs_nondecreasing_def)
  have bnd: "in_bounds (pts ! i)" if "i < length pts" for i
    using ok that by (simp add: curve_ok_def list_all_length)
  have prev: "idx = 0 \<and> x2 = x1 \<or> 0 < idx \<and> x2 = max x1 (fst (pts ! (idx - 1)))"
    using clamp_to_previous_cases [OF p] by blast
  have nxt: "\<not> Suc idx < length pts \<and> x3 = x2 \<or> Suc idx < length pts \<and> x3 = min x2 (fst (pts ! Suc idx))"
    using clamp_to_next_cases [OF n] by blast
  have lo: "fst (pts ! (idx - 1)) \<le> x3" if "0 < idx"
  proof -
    have a: "fst (pts ! (idx - 1)) \<le> x2" using prev that by auto
    have "fst (pts ! (idx - 1)) \<le> fst (pts ! idx)"
      using mono [of "idx - 1"] that idx by simp
    moreover have "fst (pts ! idx) \<le> fst (pts ! Suc idx)" if "Suc idx < length pts"
      using mono [OF that] .
    ultimately show ?thesis using a nxt by auto
  qed
  have hi: "x3 \<le> fst (pts ! Suc idx)" if "Suc idx < length pts"
    using nxt that by auto
  have x2b: "X_MIN \<le> x2 \<and> x2 \<le> X_MAX"
  proof -
    have "in_bounds (pts ! (idx - 1))" using bnd [of "idx - 1"] idx by simp
    then show ?thesis using prev x1 by (auto simp: in_bounds_def)
  qed
  have x3b: "X_MIN \<le> x3 \<and> x3 \<le> X_MAX"
  proof (cases "Suc idx < length pts")
    case True
    then have "in_bounds (pts ! Suc idx)" by (rule bnd)
    then show ?thesis using nxt x2b True by (auto simp: in_bounds_def)
  next
    case False
    then show ?thesis using nxt x2b by auto
  qed
  have "inputs_nondecreasing pts'"
    unfolding inputs_nondecreasing_def
  proof (intro allI impI)
    fix i assume "Suc i < length pts'"
    then have i: "Suc i < length pts" by (simp add: pts')
    consider "i = idx" | "Suc i = idx" | "i \<noteq> idx" "Suc i \<noteq> idx" by blast
    then show "fst (pts' ! i) \<le> fst (pts' ! Suc i)"
    proof cases
      case 1
      then show ?thesis using hi i idx by (simp add: pts')
    next
      case 2
      then show ?thesis using lo i idx by (auto simp: pts')
    next
      case 3
      then show ?thesis using mono [OF i] by (simp add: pts')
    qed
  qed
  moreover have "list_all in_bounds pts'"
    unfolding list_all_length
  proof (intro allI impI)
    fix i assume "i < length pts'"
    then have i: "i < length pts" by (simp add: pts')
    show "in_bounds (pts' ! i)"
    proof (cases "i = idx")
      case True
      then show ?thesis using x3b y idx by (simp add: pts' in_bounds_def)
    next
      case False
      then show ?thesis using bnd [OF i] by (simp add: pts')
    qed
  qed
  ultimately show ?thesis by (simp add: curve_ok_def)
qed

lemma clamped_bounds:
  "X_MIN \<le> max X_MIN (min X_MAX a)" "max X_MIN (min X_MAX a) \<le> X_MAX"
  "Y_MIN \<le> max Y_MIN (min Y_MAX b)" "max Y_MIN (min Y_MAX b) \<le> Y_MAX"
  by (simp_all add: X_MIN_def X_MAX_def Y_MIN_def Y_MAX_def)

lemma on_drag_curve_ok:
  assumes "curve_ok (points st)"
  shows "curve_ok (points (fst (on_drag st ex ey)))"
proof (cases "point_index st")
  case None
  then show ?thesis using assms by (simp add: on_drag_def)
next
  case (Some idx)
  obtain nx ny where f: "to_function_coords (ex + offset_x st) (ey + offset_y st) = (nx, ny)"
    by (cases "to_function_coords (ex + offset_x st) (ey + offset_y st)")
  let ?x1 = "max X_MIN (min X_MAX nx)" and ?y = "max Y_MIN (min Y_MAX ny)"
  show ?thesis
  proof (cases "clamp_to_previous (points st) idx ?x1")
    case (Inl e)
    then show ?thesis using assms Some f by (simp add: on_drag_def)
  next
    case p: (Inr x2)
    show ?thesis
    proof (cases "clamp_to_next (points st) idx x2")
      case (Inl e)
      then show ?thesis using assms Some f p by (simp add: on_drag_def)
    next
      case n: (Inr x3)
      show ?thesis
      proof (cases "setitem (points st) idx (x3, ?y)")
        case (Inl e)
        then show ?thesis using assms Some f p n by (simp add: on_drag_def)
      next
        case s: (Inr pts')
        have "curve_ok pts'"
          using assms clamped_bounds p n s by (rule move_keeps_curve)
        then show ?thesis using Some f p n s by (simp add: on_drag_def)
      qed
    qed
  qed
qed

lemma on_drag2_curve_ok:
  assumes "curve_ok (points st)"
  shows "curve_ok (points (fst (on_drag2 st ex ey)))"
proof (cases "point_index st")
  case None
  then show ?thesis using assms by (simp add: on_drag2_def)
next
  case (Some idx)
  obtain nx ny where f: "to_function_coords2 (ex + offset_x st) (ey + offset_y st) = (nx, ny)"
    by (cases "to_function_coords2 (ex + offset_x st) (ey + offset_y st)")
  let ?x1 = "max X_MIN (min X_MAX nx)" and ?y = "max Y_MIN (min Y_MAX ny)"
  show ?thesis
  proof (cases "idx = 0 \<and> lock_low_speed st")
    case True
    then show ?thesis using assms Some by (simp add: on_drag2_def)
  next
    case unlocked: False
    show ?thesis
    proof (cases "clamp_to_previous (points st) idx ?x1")
      case (Inl e)
      then show ?thesis using assms Some f unlocked by (simp add: on_drag2_def)
    next
      case p: (Inr x2)
      show ?thesis
      proof (cases "clamp_to_next (points st) idx x2")
        case (Inl e)
        then show ?thesis using assms Some f p unlocked by (simp add: on_drag2_def)
      next
        case n: (Inr x3)
        show ?thesis
        proof (cases "setitem (points st) idx (x3, ?y)")
          case (Inl e)
          then show ?thesis using assms Some f p n unlocked by (simp add: on_drag2_def)
        next
          case s: (Inr pts')
          have "curve_ok pts'"
            using assms clamped_bounds p n s by (rule move_keeps_curve)
          then show ?thesis using Some f p n s unlocked by (auto simp: on_drag2_def)
        qed
      qed
    qed
  qed
qed

lemma on_drag_length: "length (points (fst (on_drag st ex ey))) = length (points st)"
  by (auto simp: on_drag_def Let_def split: option.splits sum.splits prod.splits dest: setitem_cases)

lemma on_drag2_length: "length (points (fst (on_drag2 st ex ey))) = length (points st)"
  by (auto simp: on_drag2_def Let_def split: option.splits sum.splits prod.splits dest: setitem_cases)

lemma on_drag_no_error:
  "point_index st = Some idx \<Longrightarrow> idx < length (points st) \<Longrightarrow> snd (on_drag st ex ey) = None"
  using in_range_no_error [of idx "points st"]
  by (auto simp: on_drag_def Let_def split: option.splits sum.splits prod.splits)
     (metis Inl_Inr_False sum.inject(2))+


lemma on_drag2_no_error:
  "point_index st = Some idx \<Longrightarrow> idx < length (points st) \<Longrightarrow> snd (on_drag2 st ex ey) = None"
  using in_range_no_error [of idx "points st"]
  by (auto simp: on_drag2_def Let_def split: option.splits sum.splits prod.splits)
     (metis Inl_Inr_False sum.inject(2))+

lemma curve_ok_three:
  "curve_ok [a, b, c] = (fst a \<le> fst b \<and> fst b \<le> fst c \<and> in_bounds a \<and> in_bounds b \<and> in_bounds c)"
  by (auto simp: curve_ok_def inputs_nondecreasing_def less_Suc_eq nth_Cons')

text \<open>
  Claim C2. A drag on a curve whose inputs are non-decreasing and whose points lie in
  \<open>[0,1] \<times> [0,3]\<close> leaves a curve with the same two properties, for every event
  position, in both scripts. The number of points does not change, and a drag of an
  index inside the list raises nothing.
\<close>

theorem on_drag_keeps_curve:
  fixes st :: editor and st2 :: editor2
  shows "(curve_ok (points st) \<longrightarrow>
            curve_ok (points (fst (on_drag st ex ey)))
            \<and> length (points (fst (on_drag st ex ey))) = length (points st)
            \<and> (\<forall>idx. point_index st = Some idx \<and> idx < length (points st)
                  \<longrightarrow> snd (on_drag st ex ey) = None))
       \<and> (curve_ok (points st2) \<longrightarrow>
            curve_ok (points (fst (on_drag2 st2 ex2 ey2)))
            \<and> length (points (fst (on_drag2 st2 ex2 ey2))) = length (points st2)
            \<and> (\<forall>idx. point_index st2 = Some idx \<and> idx < length (points st2)
                  \<longrightarrow> snd (on_drag2 st2 ex2 ey2) = None))"
  using on_drag_curve_ok [of st ex ey] on_drag2_curve_ok [of st2 ex2 ey2]
    on_drag_length [of st ex ey] on_drag2_length [of st2 ex2 ey2]
    on_drag_no_error [of st _ ex ey] on_drag2_no_error [of st2 _ ex2 ey2]
  by blast

theorem on_drag_keeps_curve_witness:
  "curve_ok [(0, 0), (1 / 2, 1 / 2), (1, 1)]
   \<and> on_drag \<lparr>use_windows_curve = False, enable_nonlinear_boost = False,
               enable_acceleration_cap = False, points = [(0, 0), (1 / 2, 1 / 2), (1, 1)],
               point_index = Some 1, offset_x = 0, offset_y = 0\<rparr> 600 (- 50)
       = (\<lparr>use_windows_curve = False, enable_nonlinear_boost = False,
            enable_acceleration_cap = False, points = [(0, 0), (1, 3), (1, 1)],
            point_index = Some 1, offset_x = 0, offset_y = 0\<rparr>, None)
   \<and> on_drag2 \<lparr>use_windows_curve = False, enable_nonlinear_boost = False,
               enable_acceleration_cap = False, points = [(0, 0), (1 / 2, 1 / 2), (1, 1)],
               point_index = Some 1, offset_x = 0, offset_y = 0,
               lock_low_speed = True, selected_indices = [1]\<rparr> (- 30) 250
       = (\<lparr>use_windows_curve = False, enable_nonlinear_boost = False,
            enable_acceleration_cap = False, points = [(0, 0), (0, 3 / 2), (1, 1)],
            point_index = Some 1, offset_x = 0, offset_y = 0,
            lock_low_speed = True, selected_indices = [1]\<rparr>, None)
   \<and> curve_ok [(0, 0), (1, 3), (1, 1)] \<and> curve_ok [(0, 0), (0, 3 / 2), (1, 1)]"
proof -
  let ?st = "\<lparr>use_windows_curve = False, enable_nonlinear_boost = False,
               enable_acceleration_cap = False, points = [(0, 0), (1 / 2, 1 / 2), (1, 1)],
               point_index = Some 1, offset_x = 0, offset_y = 0\<rparr>"
  let ?st2 = "\<lparr>use_windows_curve = False, enable_nonlinear_boost = False,
               enable_acceleration_cap = False, points = [(0, 0), (1 / 2, 1 / 2), (1, 1)],
               point_index = Some 1, offset_x = 0, offset_y = 0,
               lock_low_speed = True, selected_indices = [1]\<rparr>"
  have h: "curve_ok [(0, 0), (1 / 2, 1 / 2), (1, 1)]"
    by (simp add: curve_ok_three in_bounds_def X_MIN_def X_MAX_def Y_MIN_def Y_MAX_def)
  have d1: "on_drag ?st 600 (- 50) = (?st\<lparr>points := [(0, 0), (1, 3), (1, 1)]\<rparr>, None)"
    by (simp add: on_drag_def to_function_coords_def clamp_to_previous_def clamp_to_next_def
          setitem_def getitem_def X_MIN_def X_MAX_def Y_MIN_def Y_MAX_def CANVAS_WIDTH_def
          CANVAS_HEIGHT_def)
  have d2: "on_drag2 ?st2 (- 30) 250 = (?st2\<lparr>points := [(0, 0), (0, 3 / 2), (1, 1)]\<rparr>, None)"
    by (simp add: on_drag2_def to_function_coords2_def clamp_to_previous_def clamp_to_next_def
          setitem_def getitem_def X_MIN_def X_MAX_def Y_MIN_def Y_MAX_def CANVAS_WIDTH_def
          CANVAS_HEIGHT_def MARGIN_def)
  have "curve_ok (points (fst (on_drag ?st 600 (- 50))))"
    and "curve_ok (points (fst (on_drag2 ?st2 (- 30) 250)))"
    using on_drag_keeps_curve [of ?st 600 "- 50" ?st2 "- 30" 250] h by simp_all
  then show ?thesis using h d1 d2 by simp
qed

subsection \<open>The coordinate transforms and a drag that does not move\<close>

lemma to_function_to_canvas:
  "to_canvas_coords x y = (cx, cy) \<Longrightarrow> to_function_coords cx cy = (x, y)"
  by (auto simp: to_canvas_coords_def to_function_coords_def X_MIN_def X_MAX_def Y_MIN_def
      Y_MAX_def CANVAS_WIDTH_def CANVAS_HEIGHT_def)

lemma to_canvas_to_function:
  "to_function_coords cx cy = (x, y) \<Longrightarrow> to_canvas_coords x y = (cx, cy)"
  by (auto simp: to_canvas_coords_def to_function_coords_def X_MIN_def X_MAX_def Y_MIN_def
      Y_MAX_def CANVAS_WIDTH_def CANVAS_HEIGHT_def)

lemma to_function_to_canvas2:
  "to_canvas_coords2 x y = (cx, cy) \<Longrightarrow> to_function_coords2 cx cy = (x, y)"
  by (auto simp: to_canvas_coords2_def to_function_coords2_def X_MIN_def X_MAX_def Y_MIN_def
      Y_MAX_def CANVAS_WIDTH_def CANVAS_HEIGHT_def MARGIN_def)

lemma to_canvas_to_function2:
  "to_function_coords2 cx cy = (x, y) \<Longrightarrow> to_canvas_coords2 x y = (cx, cy)"
  by (auto simp: to_canvas_coords2_def to_function_coords2_def X_MIN_def X_MAX_def Y_MIN_def
      Y_MAX_def CANVAS_WIDTH_def CANVAS_HEIGHT_def MARGIN_def)

lemma find_nearby_from_range:
  "find_nearby_from tcc k pts x y = Some idx \<Longrightarrow> k \<le> idx \<and> idx < k + length pts"
proof (induction pts arbitrary: k)
  case Nil
  then show ?case by simp
next
  case (Cons p pts)
  obtain px py where p: "p = (px, py)" by (cases p)
  obtain cx cy where c: "tcc px py = (cx, cy)" by (cases "tcc px py")
  show ?case
  proof (cases "(cx - x) ^ 2 + (cy - y) ^ 2 \<le> POINT_RADIUS ^ 2")
    case True
    then show ?thesis using Cons.prems p c by simp
  next
    case False
    then have "find_nearby_from tcc (Suc k) pts x y = Some idx"
      using Cons.prems p c by simp
    from Cons.IH [OF this] show ?thesis by simp
  qed
qed

lemma quantum_down_numeral:
  "quantum_down (numeral k) a q =
     (if a < 2 ^ 52 * q then quantum_down (pred_numeral k) a (q / 2) else q)"
  by (simp add: numeral_eq_Suc)

lemma quantum_up_numeral:
  "quantum_up (numeral k) a q =
     (if 2 ^ 53 * q \<le> a then quantum_up (pred_numeral k) a (2 * q) else q)"
  by (simp add: numeral_eq_Suc)

lemmas binary64_eval =
  binary64_def quantum_def round_half_even_def quantum_down_numeral quantum_up_numeral Let_def

lemma canvas_zero: "to_canvas_coords_b64 0 0 = (0, 500)"
  by (simp add: to_canvas_coords_b64_def binary64_eval X_MIN_def X_MAX_def Y_MIN_def Y_MAX_def
      CANVAS_WIDTH_def CANVAS_HEIGHT_def)

lemma canvas_half:
  "to_canvas_coords_b64 (1 / 2) (1 / 2) = (250, 7330077518506667 / 17592186044416)"
  by (simp add: to_canvas_coords_b64_def binary64_eval X_MIN_def X_MAX_def Y_MIN_def Y_MAX_def
      CANVAS_WIDTH_def CANVAS_HEIGHT_def)


lemma function_back:
  "to_function_coords_b64 250 (7330077518506667 / 17592186044416)
   = (1 / 2, 4503599627370495 / 9007199254740992)"
  by (simp add: to_function_coords_b64_def binary64_eval X_MIN_def X_MAX_def Y_MIN_def Y_MAX_def
      CANVAS_WIDTH_def CANVAS_HEIGHT_def)

lemma press_offsets:
  "binary64 (250 - binary64 252) = - 2"
  "binary64 (7330077518506667 / 17592186044416 - binary64 416) = 11728124029611 / 17592186044416"
  by (simp_all add: binary64_eval)

lemma drag_sums:
  "binary64 (binary64 252 - 2) = 250"
  "binary64 (binary64 416 + 11728124029611 / 17592186044416) = 7330077518506667 / 17592186044416"
  by (simp_all add: binary64_eval)

lemma binary64_examples:
  "binary64 (1 / 10) = 3602879701896397 / 36028797018963968"
  "binary64 (binary64 (1 / 10) + binary64 (2 / 10)) = 1351079888211149 / 4503599627370496"
  "binary64 (- 5000 / 3) = - (7330077518506667 / 4398046511104)"
  by (simp_all add: binary64_eval)

text \<open>
  Claim C10 as it is stated ends with: so dragging a point without moving the cursor
  leaves its coordinates unchanged. In the binary64 arithmetic of simulator.py this
  fails. On the default curve a press at pixel (252, 416) grabs point 1 and stores the
  offsets \<open>- 2\<close> and 0.6666666666666856; the drag event at the same pixel then writes
  point 1 back as (0.5, 0.4999999999999999).
\<close>

theorem still_drag_binary64_counterexample:
  "on_press_b64 \<lparr>use_windows_curve = False, enable_nonlinear_boost = False,
         enable_acceleration_cap = False, points = [(0, 0), (1 / 2, 1 / 2), (1, 1)],
         point_index = None, offset_x = 0, offset_y = 0\<rparr> 252 416
     = (\<lparr>use_windows_curve = False, enable_nonlinear_boost = False,
          enable_acceleration_cap = False, points = [(0, 0), (1 / 2, 1 / 2), (1, 1)],
          point_index = Some 1, offset_x = - 2,
          offset_y = 11728124029611 / 17592186044416\<rparr>, None)
   \<and> on_drag_b64 \<lparr>use_windows_curve = False, enable_nonlinear_boost = False,
          enable_acceleration_cap = False, points = [(0, 0), (1 / 2, 1 / 2), (1, 1)],
          point_index = Some 1, offset_x = - 2,
          offset_y = 11728124029611 / 17592186044416\<rparr> 252 416
     = (\<lparr>use_windows_curve = False, enable_nonlinear_boost = False,
          enable_acceleration_cap = False,
          points = [(0, 0), (1 / 2, 4503599627370495 / 9007199254740992), (1, 1)],
          point_index = Some 1, offset_x = - 2,
          offset_y = 11728124029611 / 17592186044416\<rparr>, None)
   \<and> (4503599627370495 / 9007199254740992 :: real) \<noteq> 1 / 2"
proof -
  have press: "on_press_b64 \<lparr>use_windows_curve = False, enable_nonlinear_boost = False,
         enable_acceleration_cap = False, points = [(0, 0), (1 / 2, 1 / 2), (1, 1)],
         point_index = None, offset_x = 0, offset_y = 0\<rparr> 252 416
     = (\<lparr>use_windows_curve = False, enable_nonlinear_boost = False,
          enable_acceleration_cap = False, points = [(0, 0), (1 / 2, 1 / 2), (1, 1)],
          point_index = Some 1, offset_x = - 2,
          offset_y = 11728124029611 / 17592186044416\<rparr>, None)"
    by (simp add: on_press_b64_def getitem_def canvas_zero canvas_half press_offsets
        POINT_RADIUS_def power2_eq_square)
  have drag: "on_drag_b64 \<lparr>use_windows_curve = False, enable_nonlinear_boost = False,
          enable_acceleration_cap = False, points = [(0, 0), (1 / 2, 1 / 2), (1, 1)],
          point_index = Some 1, offset_x = - 2,
          offset_y = 11728124029611 / 17592186044416\<rparr> 252 416
     = (\<lparr>use_windows_curve = False, enable_nonlinear_boost = False,
          enable_acceleration_cap = False,
          points = [(0, 0), (1 / 2, 4503599627370495 / 9007199254740992), (1, 1)],
          point_index = Some 1, offset_x = - 2,
          offset_y = 11728124029611 / 17592186044416\<rparr>, None)"
    by (simp add: on_drag_b64_def drag_sums function_back clamp_to_previous_def clamp_to_next_def
        setitem_def getitem_def X_MIN_def X_MAX_def Y_MIN_def Y_MAX_def)
  show ?thesis using press drag by simp
qed

text \<open>
  Claim C10, amended. In exact real arithmetic the two transforms of each script are
  inverse to each other: \<open>to_function_coords\<close> after \<open>to_canvas_coords\<close> gives back
  every pair \<open>(x, y)\<close>, and \<open>to_canvas_coords\<close> after \<open>to_function_coords\<close> gives back
  every canvas pair \<open>(cx, cy)\<close>. Nothing is said of a drag: the code computes in
  binary64, where the round trip holds up to rounding only.
\<close>

theorem coords_mutually_inverse:
  "(case to_canvas_coords x y of (cx, cy) \<Rightarrow> to_function_coords cx cy) = (x, y)
   \<and> (case to_function_coords cx cy of (x', y') \<Rightarrow> to_canvas_coords x' y') = (cx, cy)
   \<and> (case to_canvas_coords2 x y of (cx, cy) \<Rightarrow> to_function_coords2 cx cy) = (x, y)
   \<and> (case to_function_coords2 cx cy of (x', y') \<Rightarrow> to_canvas_coords2 x' y') = (cx, cy)"
proof (intro conjI)
  show "(case to_canvas_coords x y of (cx, cy) \<Rightarrow> to_function_coords cx cy) = (x, y)"
    using to_function_to_canvas by (cases "to_canvas_coords x y") simp
  show "(case to_function_coords cx cy of (x', y') \<Rightarrow> to_canvas_coords x' y') = (cx, cy)"
    using to_canvas_to_function by (cases "to_function_coords cx cy") simp
  show "(case to_canvas_coords2 x y of (cx, cy) \<Rightarrow> to_function_coords2 cx cy) = (x, y)"
    using to_function_to_canvas2 by (cases "to_canvas_coords2 x y") simp
  show "(case to_function_coords2 cx cy of (x', y') \<Rightarrow> to_canvas_coords2 x' y') = (cx, cy)"
    using to_canvas_to_function2 by (cases "to_function_coords2 cx cy") simp
qed

theorem coords_mutually_inverse_witness:
  "to_canvas_coords (3 / 10) (3 / 10) = (150, 450)
   \<and> to_function_coords 150 450 = (3 / 10, 3 / 10)
   \<and> to_canvas_coords2 (3 / 10) (3 / 10) = (158, 434)
   \<and> to_function_coords2 158 434 = (3 / 10, 3 / 10)"
proof -
  have a: "to_canvas_coords (3 / 10) (3 / 10) = (150, 450)"
    by (simp add: to_canvas_coords_def X_MIN_def X_MAX_def Y_MIN_def Y_MAX_def
        CANVAS_WIDTH_def CANVAS_HEIGHT_def)
  have b: "to_canvas_coords2 (3 / 10) (3 / 10) = (158, 434)"
    by (simp add: to_canvas_coords2_def X_MIN_def X_MAX_def Y_MIN_def Y_MAX_def
        CANVAS_WIDTH_def CANVAS_HEIGHT_def MARGIN_def)
  show ?thesis
    using coords_mutually_inverse [of "3 / 10" "3 / 10" 150 450] a b by simp
qed

subsection \<open>Increase and decrease of the selection\<close>

lemma increase_loop_length: "length (fst (increase_loop lock sel pts)) = length pts"
  by (induction sel arbitrary: pts lock) simp_all

lemma decrease_loop_length: "length (fst (decrease_loop lock sel pts)) = length pts"
  by (induction sel arbitrary: pts lock) simp_all

lemma increase_loop_map:
  "distinct sel \<Longrightarrow> \<forall>i\<in>set sel. i < length pts \<Longrightarrow>
   increase_loop lock sel pts =
     (map (\<lambda>i. if i \<in> set sel \<and> \<not> (lock \<and> i = 0)
                then (fst (pts ! i), min Y_MAX (snd (pts ! i) + DELTA_Y)) else pts ! i)
          [0..<length pts], None)"
proof (induction sel arbitrary: pts)
  case Nil
  show ?case by (simp add: map_nth)
next
  case (Cons i rest)
  have d: "distinct rest" and ni: "i \<notin> set rest" using Cons.prems(1) by simp_all
  have r: "\<forall>j\<in>set rest. j < length pts" and i: "i < length pts" using Cons.prems(2) by simp_all
  show ?case
  proof (cases "i = 0 \<and> lock")
    case True
    have same: "(j \<in> set rest \<and> \<not> (lock \<and> j = 0)) = (j \<in> set (i # rest) \<and> \<not> (lock \<and> j = 0))" for j
      using True by auto
    have "increase_loop lock (i # rest) pts = increase_loop lock rest pts"
      using True by (simp del: increase_loop.simps add: increase_loop.simps(2) [of True 0])
    also note Cons.IH [OF d r]
    finally show ?thesis unfolding same .
  next
    case False
    let ?p = "pts[i := (fst (pts ! i), min Y_MAX (snd (pts ! i) + DELTA_Y))]"
    have r': "\<forall>j\<in>set rest. j < length ?p" using r by simp
    have eq: "(if j \<in> set rest \<and> \<not> (lock \<and> j = 0)
               then (fst (?p ! j), min Y_MAX (snd (?p ! j) + DELTA_Y)) else ?p ! j)
            = (if j \<in> set (i # rest) \<and> \<not> (lock \<and> j = 0)
               then (fst (pts ! j), min Y_MAX (snd (pts ! j) + DELTA_Y)) else pts ! j)"
      if "j < length pts" for j
    proof (cases "j = i")
      case True
      then show ?thesis using ni i False by auto
    next
      case False
      then show ?thesis by auto
    qed
    have "increase_loop lock (i # rest) pts = increase_loop lock rest ?p"
      by (simp only: increase_loop.simps False if_False i if_True)
    also note Cons.IH [OF d r']
    also have "map (\<lambda>j. if j \<in> set rest \<and> \<not> (lock \<and> j = 0)
                        then (fst (?p ! j), min Y_MAX (snd (?p ! j) + DELTA_Y)) else ?p ! j) [0..<length ?p]
             = map (\<lambda>j. if j \<in> set (i # rest) \<and> \<not> (lock \<and> j = 0)
                        then (fst (pts ! j), min Y_MAX (snd (pts ! j) + DELTA_Y)) else pts ! j) [0..<length pts]"
      using eq by (intro map_cong) simp_all
    finally show ?thesis .
  qed
qed

lemma decrease_loop_map:
  "distinct sel \<Longrightarrow> \<forall>i\<in>set sel. i < length pts \<Longrightarrow>
   decrease_loop lock sel pts =
     (map (\<lambda>i. if i \<in> set sel \<and> \<not> (lock \<and> i = 0)
                then (fst (pts ! i), max Y_MIN (snd (pts ! i) - DELTA_Y)) else pts ! i)
          [0..<length pts], None)"
proof (induction sel arbitrary: pts)
  case Nil
  show ?case by (simp add: map_nth)
next
  case (Cons i rest)
  have d: "distinct rest" and ni: "i \<notin> set rest" using Cons.prems(1) by simp_all
  have r: "\<forall>j\<in>set rest. j < length pts" and i: "i < length pts" using Cons.prems(2) by simp_all
  show ?case
  proof (cases "i = 0 \<and> lock")
    case True
    have same: "(j \<in> set rest \<and> \<not> (lock \<and> j = 0)) = (j \<in> set (i # rest) \<and> \<not> (lock \<and> j = 0))" for j
      using True by auto
    have "decrease_loop lock (i # rest) pts = decrease_loop lock rest pts"
      using True by (simp del: decrease_loop.simps add: decrease_loop.simps(2) [of True 0])
    also note Cons.IH [OF d r]
    finally show ?thesis unfolding same .
  next
    case False
    let ?p = "pts[i := (fst (pts ! i), max Y_MIN (snd (pts ! i) - DELTA_Y))]"
    have r': "\<forall>j\<in>set rest. j < length ?p" using r by simp
    have eq: "(if j \<in> set rest \<and> \<not> (lock \<and> j = 0)
               then (fst (?p ! j), max Y_MIN (snd (?p ! j) - DELTA_Y)) else ?p ! j)
            = (if j \<in> set (i # rest) \<and> \<not> (lock \<and> j = 0)
               then (fst (pts ! j), max Y_MIN (snd (pts ! j) - DELTA_Y)) else pts ! j)"
      if "j < length pts" for j
    proof (cases "j = i")
      case True
      then show ?thesis using ni i False by auto
    next
      case False
      then show ?thesis by auto
    qed
    have "decrease_loop lock (i # rest) pts = decrease_loop lock rest ?p"
      by (simp only: decrease_loop.simps False if_False i if_True)
    also note Cons.IH [OF d r']
    also have "map (\<lambda>j. if j \<in> set rest \<and> \<not> (lock \<and> j = 0)
                        then (fst (?p ! j), max Y_MIN (snd (?p ! j) - DELTA_Y)) else ?p ! j) [0..<length ?p]
             = map (\<lambda>j. if j \<in> set (i # rest) \<and> \<not> (lock \<and> j = 0)
                        then (fst (pts ! j), max Y_MIN (snd (pts ! j) - DELTA_Y)) else pts ! j) [0..<length pts]"
      using eq by (intro map_cong) simp_all
    finally show ?thesis .
  qed
qed

lemma increase_clamps:
  "Y_MIN \<le> y \<Longrightarrow> min Y_MAX (y + DELTA_Y) = max Y_MIN (min Y_MAX (y + DELTA_Y))"
  by (simp add: Y_MIN_def Y_MAX_def DELTA_Y_def)

lemma decrease_clamps:
  "y \<le> Y_MAX \<Longrightarrow> max Y_MIN (y - DELTA_Y) = max Y_MIN (min Y_MAX (y + - DELTA_Y))"
  by (simp add: Y_MIN_def Y_MAX_def DELTA_Y_def)

lemma increase_all_points_adjust:
  assumes b: "list_all in_bounds (points st)" and d: "distinct (selected_indices st)"
    and r: "\<forall>i\<in>set (selected_indices st). i < length (points st)"
  shows "increase_all_points st =
         (st\<lparr>points := adjust_selected DELTA_Y (lock_low_speed st) (set (selected_indices st)) (points st)\<rparr>, None)"
proof -
  have y: "Y_MIN \<le> snd (points st ! i)" if "i < length (points st)" for i
    using b that by (simp add: list_all_length in_bounds_def)
  have "map (\<lambda>i. if i \<in> set (selected_indices st) \<and> \<not> (lock_low_speed st \<and> i = 0)
                then (fst (points st ! i), min Y_MAX (snd (points st ! i) + DELTA_Y)) else points st ! i)
          [0..<length (points st)]
        = adjust_selected DELTA_Y (lock_low_speed st) (set (selected_indices st)) (points st)"
    unfolding adjust_selected_def using increase_clamps [OF y] by simp
  then show ?thesis
    unfolding increase_all_points_def increase_loop_map [OF d r] by simp
qed

lemma decrease_all_points_adjust:
  assumes b: "list_all in_bounds (points st)" and d: "distinct (selected_indices st)"
    and r: "\<forall>i\<in>set (selected_indices st). i < length (points st)"
  shows "decrease_all_points st =
         (st\<lparr>points := adjust_selected (- DELTA_Y) (lock_low_speed st) (set (selected_indices st)) (points st)\<rparr>, None)"
proof -
  have y: "snd (points st ! i) \<le> Y_MAX" if "i < length (points st)" for i
    using b that by (simp add: list_all_length in_bounds_def)
  have "map (\<lambda>i. if i \<in> set (selected_indices st) \<and> \<not> (lock_low_speed st \<and> i = 0)
                then (fst (points st ! i), max Y_MIN (snd (points st ! i) - DELTA_Y)) else points st ! i)
          [0..<length (points st)]
        = adjust_selected (- DELTA_Y) (lock_low_speed st) (set (selected_indices st)) (points st)"
    unfolding adjust_selected_def using decrease_clamps [OF y] by simp
  then show ?thesis
    unfolding decrease_all_points_def decrease_loop_map [OF d r] by simp
qed


lemma adjust_selected_at_max:
  assumes "i < length pts" "i \<in> selection" "\<not> (lock \<and> i = 0)" "snd (pts ! i) = Y_MAX"
  shows "snd (adjust_selected DELTA_Y lock selection pts ! i) = Y_MAX"
  using assms by (simp add: adjust_selected_def Y_MIN_def Y_MAX_def DELTA_Y_def)

text \<open>
  Claim C6. On a state whose points lie in the bounds and whose selection is a set of
  indices of the curve, \<open>increase_all_points\<close> is the specification's adjustment by
  \<open>DELTA_Y = 0.1\<close> and \<open>decrease_all_points\<close> the one by \<open>- 0.1\<close>, and neither raises.
  A selected, unlocked point whose output is \<open>Y_MAX = 3\<close> stays at 3 under an
  increase. Increasing the selection \<open>{1}\<close> of the points (0,0), (0.5,0.5), (1,1) sets
  the output of point 1 to 0.6 and changes nothing else.
\<close>

theorem increase_decrease_adjust_selected:
  "(list_all in_bounds (points st) \<and> distinct (selected_indices st)
      \<and> (\<forall>i\<in>set (selected_indices st). i < length (points st)) \<longrightarrow>
      increase_all_points st =
        (st\<lparr>points := adjust_selected DELTA_Y (lock_low_speed st)
                          (set (selected_indices st)) (points st)\<rparr>, None)
      \<and> decrease_all_points st =
        (st\<lparr>points := adjust_selected (- DELTA_Y) (lock_low_speed st)
                          (set (selected_indices st)) (points st)\<rparr>, None)
      \<and> (\<forall>i. i \<in> set (selected_indices st) \<and> \<not> (lock_low_speed st \<and> i = 0)
               \<and> snd (points st ! i) = Y_MAX
            \<longrightarrow> snd (points (fst (increase_all_points st)) ! i) = Y_MAX))
   \<and> (points st = [(0, 0), (5 / 10, 5 / 10), (1, 1)] \<and> selected_indices st = [1] \<longrightarrow>
        points (fst (increase_all_points st)) = [(0, 0), (5 / 10, 6 / 10), (1, 1)])"
proof (intro conjI impI allI)
  assume a: "list_all in_bounds (points st) \<and> distinct (selected_indices st)
      \<and> (\<forall>i\<in>set (selected_indices st). i < length (points st))"
  then have b: "list_all in_bounds (points st)" and d: "distinct (selected_indices st)"
    and r: "\<forall>i\<in>set (selected_indices st). i < length (points st)" by simp_all
  show inc: "increase_all_points st =
        (st\<lparr>points := adjust_selected DELTA_Y (lock_low_speed st)
                          (set (selected_indices st)) (points st)\<rparr>, None)"
    using b d r by (rule increase_all_points_adjust)
  show "decrease_all_points st =
        (st\<lparr>points := adjust_selected (- DELTA_Y) (lock_low_speed st)
                          (set (selected_indices st)) (points st)\<rparr>, None)"
    using b d r by (rule decrease_all_points_adjust)
  fix i
  assume i: "i \<in> set (selected_indices st) \<and> \<not> (lock_low_speed st \<and> i = 0)
               \<and> snd (points st ! i) = Y_MAX"
  then have "i < length (points st)" using r by blast
  then show "snd (points (fst (increase_all_points st)) ! i) = Y_MAX"
    using i adjust_selected_at_max [of i "points st" "set (selected_indices st)" "lock_low_speed st"]
    unfolding inc by simp
next
  assume "points st = [(0, 0), (5 / 10, 5 / 10), (1, 1)] \<and> selected_indices st = [1]"
  then show "points (fst (increase_all_points st)) = [(0, 0), (5 / 10, 6 / 10), (1, 1)]"
    by (simp add: increase_all_points_def Y_MAX_def DELTA_Y_def)
qed

theorem increase_decrease_adjust_selected_witness:
  "list_all in_bounds [(0, 0), (1 / 2, 29 / 10), (1, 3)] \<and> distinct [2, 0, 1 :: nat]
   \<and> increase_all_points \<lparr>use_windows_curve = False, enable_nonlinear_boost = False,
        enable_acceleration_cap = False, points = [(0, 0), (1 / 2, 29 / 10), (1, 3)],
        point_index = None, offset_x = 0, offset_y = 0,
        lock_low_speed = True, selected_indices = [2, 0, 1]\<rparr>
      = (\<lparr>use_windows_curve = False, enable_nonlinear_boost = False,
          enable_acceleration_cap = False, points = [(0, 0), (1 / 2, 3), (1, 3)],
          point_index = None, offset_x = 0, offset_y = 0,
          lock_low_speed = True, selected_indices = [2, 0, 1]\<rparr>, None)
   \<and> decrease_all_points \<lparr>use_windows_curve = False, enable_nonlinear_boost = False,
        enable_acceleration_cap = False, points = [(0, 0), (1 / 2, 29 / 10), (1, 3)],
        point_index = None, offset_x = 0, offset_y = 0,
        lock_low_speed = True, selected_indices = [2, 0, 1]\<rparr>
      = (\<lparr>use_windows_curve = False, enable_nonlinear_boost = False,
          enable_acceleration_cap = False, points = [(0, 0), (1 / 2, 28 / 10), (1, 29 / 10)],
          point_index = None, offset_x = 0, offset_y = 0,
          lock_low_speed = True, selected_indices = [2, 0, 1]\<rparr>, None)
   \<and> points (fst (increase_all_points \<lparr>use_windows_curve = False, enable_nonlinear_boost = False,
        enable_acceleration_cap = False, points = [(0, 0), (5 / 10, 5 / 10), (1, 1)],
        point_index = None, offset_x = 0, offset_y = 0,
        lock_low_speed = True, selected_indices = [1]\<rparr>)) ! 1 = (5 / 10, 6 / 10)"
proof -
  let ?st = "\<lparr>use_windows_curve = False, enable_nonlinear_boost = False,
        enable_acceleration_cap = False, points = [(0, 0), (1 / 2, 29 / 10), (1, 3)],
        point_index = None, offset_x = 0, offset_y = 0,
        lock_low_speed = True, selected_indices = [2, 0, 1]\<rparr>"
  let ?st1 = "\<lparr>use_windows_curve = False, enable_nonlinear_boost = False,
        enable_acceleration_cap = False, points = [(0, 0), (5 / 10, 5 / 10), (1, 1)],
        point_index = None, offset_x = 0, offset_y = 0,
        lock_low_speed = True, selected_indices = [1]\<rparr>"
  have h: "list_all in_bounds [(0, 0), (1 / 2, 29 / 10), (1, 3)]" "distinct [2, 0, 1 :: nat]"
    by (simp_all add: in_bounds_def X_MIN_def X_MAX_def Y_MIN_def Y_MAX_def)
  have r: "\<forall>i\<in>set [2, 0, 1 :: nat]. i < length [(0, 0), (1 / 2, 29 / 10), (1 :: real, 3 :: real)]"
    by simp
  have a: "adjust_selected DELTA_Y True (set [2, 0, 1]) [(0, 0), (1 / 2, 29 / 10), (1, 3)]
           = [(0, 0), (1 / 2, 3), (1, 3)]"
    by (simp add: adjust_selected_def Y_MIN_def Y_MAX_def DELTA_Y_def)
  have b: "adjust_selected (- DELTA_Y) True (set [2, 0, 1]) [(0, 0), (1 / 2, 29 / 10), (1, 3)]
           = [(0, 0), (1 / 2, 28 / 10), (1, 29 / 10)]"
    by (simp add: adjust_selected_def Y_MIN_def Y_MAX_def DELTA_Y_def)
  have "increase_all_points ?st = (?st\<lparr>points := [(0, 0), (1 / 2, 3), (1, 3)]\<rparr>, None)"
    and "decrease_all_points ?st = (?st\<lparr>points := [(0, 0), (1 / 2, 28 / 10), (1, 29 / 10)]\<rparr>, None)"
    using increase_decrease_adjust_selected [of ?st] h r a b by simp_all
  moreover have "points (fst (increase_all_points ?st1)) = [(0, 0), (5 / 10, 6 / 10), (1, 1)]"
    using increase_decrease_adjust_selected [of ?st1] by simp
  ultimately show ?thesis using h by simp
qed

subsection \<open>The locked point\<close>

lemma increase_loop_first: "fst (increase_loop True sel pts) ! 0 = pts ! 0"
proof (induction sel arbitrary: pts)
  case Nil
  show ?case by simp
next
  case (Cons i rest)
  show ?case
  proof (cases "i = 0")
    case True
    then show ?thesis using Cons.IH [of pts] by simp
  next
    case False
    then show ?thesis
      using Cons.IH [of "pts[i := (fst (pts ! i), min Y_MAX (snd (pts ! i) + DELTA_Y))]"]
      by simp
  qed
qed

lemma decrease_loop_first: "fst (decrease_loop True sel pts) ! 0 = pts ! 0"
proof (induction sel arbitrary: pts)
  case Nil
  show ?case by simp
next
  case (Cons i rest)
  show ?case
  proof (cases "i = 0")
    case True
    then show ?thesis using Cons.IH [of pts] by simp
  next
    case False
    then show ?thesis
      using Cons.IH [of "pts[i := (fst (pts ! i), max Y_MIN (snd (pts ! i) - DELTA_Y))]"]
      by simp
  qed
qed

lemma increase_all_points_fst:
  "points (fst (increase_all_points st))
   = fst (increase_loop (lock_low_speed st) (selected_indices st) (points st))"
  by (simp add: increase_all_points_def split: prod.splits)

lemma decrease_all_points_fst:
  "points (fst (decrease_all_points st))
   = fst (decrease_loop (lock_low_speed st) (selected_indices st) (points st))"
  by (simp add: decrease_all_points_def split: prod.splits)

lemma on_drag2_first:
  "lock_low_speed st \<Longrightarrow> points (fst (on_drag2 st ex ey)) ! 0 = points st ! 0"
  by (auto simp: on_drag2_def Let_def split: option.splits sum.splits prod.splits
      dest!: setitem_cases)

text \<open>
  Claim C7. While \<open>lock_low_speed\<close> is set, a drag that targets index 0 returns the
  state as it was, no drag at all changes point 0, and neither \<open>increase_all_points\<close>
  nor \<open>decrease_all_points\<close> changes point 0, whatever the selection holds and wherever
  the event is; the number of points stays the same. A press that hits point 0 returns
  the state as it was, so the locked point is never grabbed.
\<close>

theorem locked_point_unchanged:
  "lock_low_speed st \<longrightarrow>
     (point_index st = Some 0 \<longrightarrow> on_drag2 st ex ey = (st, None))
     \<and> points (fst (on_drag2 st ex ey)) ! 0 = points st ! 0
     \<and> length (points (fst (on_drag2 st ex ey))) = length (points st)
     \<and> points (fst (increase_all_points st)) ! 0 = points st ! 0
     \<and> length (points (fst (increase_all_points st))) = length (points st)
     \<and> points (fst (decrease_all_points st)) ! 0 = points st ! 0
     \<and> length (points (fst (decrease_all_points st))) = length (points st)
     \<and> (find_nearby_point2 st ex ey = Some 0 \<longrightarrow> on_press2 st ex ey s = (st, None))"
proof (intro impI conjI)
  assume lock: "lock_low_speed st"
  show "on_drag2 st ex ey = (st, None)" if "point_index st = Some 0"
    using that lock by (simp add: on_drag2_def)
  show "points (fst (on_drag2 st ex ey)) ! 0 = points st ! 0"
    using lock by (rule on_drag2_first)
  show "length (points (fst (on_drag2 st ex ey))) = length (points st)"
    by (rule on_drag2_length)
  show "points (fst (increase_all_points st)) ! 0 = points st ! 0"
    using lock by (simp add: increase_all_points_fst increase_loop_first)
  show "length (points (fst (increase_all_points st))) = length (points st)"
    by (simp add: increase_all_points_fst increase_loop_length)
  show "points (fst (decrease_all_points st)) ! 0 = points st ! 0"
    using lock by (simp add: decrease_all_points_fst decrease_loop_first)
  show "length (points (fst (decrease_all_points st))) = length (points st)"
    by (simp add: decrease_all_points_fst decrease_loop_length)
  show "on_press2 st ex ey s = (st, None)" if "find_nearby_point2 st ex ey = Some 0"
    using that lock by (simp add: on_press2_def)
qed

theorem locked_point_unchanged_witness:
  "on_drag2 \<lparr>use_windows_curve = False, enable_nonlinear_boost = False,
        enable_acceleration_cap = False, points = [(0, 0), (1 / 2, 1 / 2), (1, 1)],
        point_index = Some 0, offset_x = 0, offset_y = 0,
        lock_low_speed = True, selected_indices = [0, 1]\<rparr> 300 100
     = (\<lparr>use_windows_curve = False, enable_nonlinear_boost = False,
        enable_acceleration_cap = False, points = [(0, 0), (1 / 2, 1 / 2), (1, 1)],
        point_index = Some 0, offset_x = 0, offset_y = 0,
        lock_low_speed = True, selected_indices = [0, 1]\<rparr>, None)
   \<and> increase_all_points \<lparr>use_windows_curve = False, enable_nonlinear_boost = False,
        enable_acceleration_cap = False, points = [(0, 0), (1 / 2, 1 / 2), (1, 1)],
        point_index = Some 0, offset_x = 0, offset_y = 0,
        lock_low_speed = True, selected_indices = [0, 1]\<rparr>
     = (\<lparr>use_windows_curve = False, enable_nonlinear_boost = False,
        enable_acceleration_cap = False, points = [(0, 0), (1 / 2, 6 / 10), (1, 1)],
        point_index = Some 0, offset_x = 0, offset_y = 0,
        lock_low_speed = True, selected_indices = [0, 1]\<rparr>, None)
   \<and> points (fst (increase_all_points \<lparr>use_windows_curve = False, enable_nonlinear_boost = False,
        enable_acceleration_cap = False, points = [(0, 0), (1 / 2, 1 / 2), (1, 1)],
        point_index = Some 0, offset_x = 0, offset_y = 0,
        lock_low_speed = True, selected_indices = [0, 1]\<rparr>)) ! 0 = (0, 0)
   \<and> points (fst (decrease_all_points \<lparr>use_windows_curve = False, enable_nonlinear_boost = False,
        enable_acceleration_cap = False, points = [(0, 0), (1 / 2, 1 / 2), (1, 1)],
        point_index = Some 0, offset_x = 0, offset_y = 0,
        lock_low_speed = True, selected_indices = [0, 1]\<rparr>)) ! 0 = (0, 0)"
proof -
  let ?st = "\<lparr>use_windows_curve = False, enable_nonlinear_boost = False,
        enable_acceleration_cap = False, points = [(0, 0), (1 / 2, 1 / 2), (1, 1)],
        point_index = Some 0, offset_x = 0, offset_y = 0,
        lock_low_speed = True, selected_indices = [0, 1]\<rparr>"
  have inc: "increase_all_points ?st = (?st\<lparr>points := [(0, 0), (1 / 2, 6 / 10), (1, 1)]\<rparr>, None)"
    by (simp add: increase_all_points_def Y_MAX_def DELTA_Y_def)
  have "on_drag2 ?st 300 100 = (?st, None)"
    and "points (fst (increase_all_points ?st)) ! 0 = (0, 0)"
    and "points (fst (decrease_all_points ?st)) ! 0 = (0, 0)"
    using locked_point_unchanged [of ?st 300 100 0] by simp_all
  then show ?thesis using inc by simp
qed

subsection \<open>Presets\<close>

text \<open>
  Claim C5. With the Windows option on, \<open>update_curve_from_options\<close> yields the four
  points (0,0), (0.3,0.3), (0.6,1.2), (1,2.5) whatever the boost and cap options are.
  With it off and both options off it yields (0,0), (0.5,0.5), (1,1); with both on,
  (0,0), (0.5,1.5), (1,2.5); in general the boost option alone decides the output of
  the middle point and the cap option alone that of the last point. Both scripts agree;
  simulator2.py also empties the selection.
\<close>

theorem update_curve_presets:
  fixes st :: editor and st2 :: editor2
  shows "(use_windows_curve st \<longrightarrow>
            points (update_curve_from_options st)
              = [(0, 0), (3 / 10, 3 / 10), (6 / 10, 12 / 10), (1, 25 / 10)])
       \<and> (\<not> use_windows_curve st \<and> \<not> enable_nonlinear_boost st \<and> \<not> enable_acceleration_cap st \<longrightarrow>
            points (update_curve_from_options st) = [(0, 0), (5 / 10, 5 / 10), (1, 1)])
       \<and> (\<not> use_windows_curve st \<and> enable_nonlinear_boost st \<and> enable_acceleration_cap st \<longrightarrow>
            points (update_curve_from_options st) = [(0, 0), (5 / 10, 15 / 10), (1, 25 / 10)])
       \<and> (\<not> use_windows_curve st \<longrightarrow>
            points (update_curve_from_options st)
              = [(0, 0), (5 / 10, if enable_nonlinear_boost st then 15 / 10 else 5 / 10),
                 (1, if enable_acceleration_cap st then 25 / 10 else 1)])
       \<and> (use_windows_curve st2 \<longrightarrow>
            points (update_curve_from_options2 st2)
              = [(0, 0), (3 / 10, 3 / 10), (6 / 10, 12 / 10), (1, 25 / 10)])
       \<and> (\<not> use_windows_curve st2 \<and> \<not> enable_nonlinear_boost st2 \<and> \<not> enable_acceleration_cap st2 \<longrightarrow>
            points (update_curve_from_options2 st2) = [(0, 0), (5 / 10, 5 / 10), (1, 1)])
       \<and> (\<not> use_windows_curve st2 \<and> enable_nonlinear_boost st2 \<and> enable_acceleration_cap st2 \<longrightarrow>
            points (update_curve_from_options2 st2) = [(0, 0), (5 / 10, 15 / 10), (1, 25 / 10)])
       \<and> (\<not> use_windows_curve st2 \<longrightarrow>
            points (update_curve_from_options2 st2)
              = [(0, 0), (5 / 10, if enable_nonlinear_boost st2 then 15 / 10 else 5 / 10),
                 (1, if enable_acceleration_cap st2 then 25 / 10 else 1)])
       \<and> selected_indices (update_curve_from_options2 st2) = []"
  by (simp add: update_curve_from_options_def update_curve_from_options2_def WINDOWS_CURVE_def Let_def)

theorem update_curve_presets_witness:
  "points (update_curve_from_options \<lparr>use_windows_curve = True, enable_nonlinear_boost = True,
        enable_acceleration_cap = True, points = [(0, 0), (1 / 2, 1 / 2), (1, 1)],
        point_index = None, offset_x = 0, offset_y = 0\<rparr>)
     = [(0, 0), (3 / 10, 3 / 10), (6 / 10, 12 / 10), (1, 25 / 10)]
   \<and> points (update_curve_from_options \<lparr>use_windows_curve = False, enable_nonlinear_boost = False,
        enable_acceleration_cap = False, points = [],
        point_index = None, offset_x = 0, offset_y = 0\<rparr>)
     = [(0, 0), (5 / 10, 5 / 10), (1, 1)]
   \<and> points (update_curve_from_options \<lparr>use_windows_curve = False, enable_nonlinear_boost = True,
        enable_acceleration_cap = True, points = [],
        point_index = None, offset_x = 0, offset_y = 0\<rparr>)
     = [(0, 0), (5 / 10, 15 / 10), (1, 25 / 10)]
   \<and> points (update_curve_from_options2 \<lparr>use_windows_curve = True, enable_nonlinear_boost = False,
        enable_acceleration_cap = True, points = [(0, 0), (1 / 2, 1 / 2), (1, 1)],
        point_index = None, offset_x = 0, offset_y = 0,
        lock_low_speed = True, selected_indices = [1, 2]\<rparr>)
     = [(0, 0), (3 / 10, 3 / 10), (6 / 10, 12 / 10), (1, 25 / 10)]
   \<and> points (update_curve_from_options2 \<lparr>use_windows_curve = False, enable_nonlinear_boost = False,
        enable_acceleration_cap = False, points = [],
        point_index = None, offset_x = 0, offset_y = 0,
        lock_low_speed = True, selected_indices = [1, 2]\<rparr>)
     = [(0, 0), (5 / 10, 5 / 10), (1, 1)]
   \<and> points (update_curve_from_options2 \<lparr>use_windows_curve = False, enable_nonlinear_boost = True,
        enable_acceleration_cap = True, points = [],
        point_index = None, offset_x = 0, offset_y = 0,
        lock_low_speed = True, selected_indices = [1, 2]\<rparr>)
     = [(0, 0), (5 / 10, 15 / 10), (1, 25 / 10)]"
proof -
  let ?w = "\<lparr>use_windows_curve = True, enable_nonlinear_boost = True,
        enable_acceleration_cap = True, points = [(0, 0), (1 / 2, 1 / 2), (1 :: real, 1 :: real)],
        point_index = None, offset_x = 0, offset_y = 0\<rparr>"
  let ?d = "\<lparr>use_windows_curve = False, enable_nonlinear_boost = False,
        enable_acceleration_cap = False, points = [] :: point list,
        point_index = None, offset_x = 0, offset_y = 0\<rparr>"
  let ?b = "\<lparr>use_windows_curve = False, enable_nonlinear_boost = True,
        enable_acceleration_cap = True, points = [] :: point list,
        point_index = None, offset_x = 0, offset_y = 0\<rparr>"
  let ?w2 = "\<lparr>use_windows_curve = True, enable_nonlinear_boost = False,
        enable_acceleration_cap = True, points = [(0, 0), (1 / 2, 1 / 2), (1 :: real, 1 :: real)],
        point_index = None, offset_x = 0, offset_y = 0,
        lock_low_speed = True, selected_indices = [1, 2]\<rparr>"
  let ?d2 = "\<lparr>use_windows_curve = False, enable_nonlinear_boost = False,
        enable_acceleration_cap = False, points = [] :: point list,
        point_index = None, offset_x = 0, offset_y = 0,
        lock_low_speed = True, selected_indices = [1, 2]\<rparr>"
  let ?b2 = "\<lparr>use_windows_curve = False, enable_nonlinear_boost = True,
        enable_acceleration_cap = True, points = [] :: point list,
        point_index = None, offset_x = 0, offset_y = 0,
        lock_low_speed = True, selected_indices = [1, 2]\<rparr>"
  show ?thesis
    using update_curve_presets [of ?w ?w2] update_curve_presets [of ?d ?d2]
      update_curve_presets [of ?b ?b2]
    by simp
qed

subsection \<open>Hit test\<close>

lemma within_radius_squares:
  "within_radius c x y POINT_RADIUS = ((fst c - x) ^ 2 + (snd c - y) ^ 2 \<le> POINT_RADIUS ^ 2)"
proof -
  have "sqrt ((fst c - x) ^ 2 + (snd c - y) ^ 2) \<le> POINT_RADIUS
        \<longleftrightarrow> sqrt ((fst c - x) ^ 2 + (snd c - y) ^ 2) \<le> sqrt (POINT_RADIUS ^ 2)"
    by (simp add: POINT_RADIUS_def)
  then show ?thesis by (simp add: within_radius_def del: real_sqrt_abs)
qed

lemma find_nearby_from_first:
  "find_nearby_from tcc k pts x y = Some idx \<longleftrightarrow>
     k \<le> idx \<and> idx < k + length pts
     \<and> within_radius (tcc (fst (pts ! (idx - k))) (snd (pts ! (idx - k)))) x y POINT_RADIUS
     \<and> (\<forall>j<idx - k. \<not> within_radius (tcc (fst (pts ! j)) (snd (pts ! j))) x y POINT_RADIUS)"
proof (induction pts arbitrary: k)
  case Nil
  show ?case by simp
next
  case (Cons p pts)
  obtain px py where p: "p = (px, py)" by (cases p)
  obtain cx cy where c: "tcc px py = (cx, cy)" by (cases "tcc px py")
  have near: "within_radius (tcc px py) x y POINT_RADIUS = ((cx - x) ^ 2 + (cy - y) ^ 2 \<le> POINT_RADIUS ^ 2)"
    by (simp add: within_radius_squares c)
  show ?case
  proof (cases "(cx - x) ^ 2 + (cy - y) ^ 2 \<le> POINT_RADIUS ^ 2")
    case True
    have "find_nearby_from tcc k (p # pts) x y = Some k" using True p c by simp
    moreover have "idx = k" if "k \<le> idx" "\<forall>j<idx - k. \<not> within_radius (tcc (fst ((p # pts) ! j)) (snd ((p # pts) ! j))) x y POINT_RADIUS"
    proof (rule ccontr)
      assume "idx \<noteq> k"
      then have "0 < idx - k" using that(1) by simp
      then have "\<not> within_radius (tcc (fst ((p # pts) ! 0)) (snd ((p # pts) ! 0))) x y POINT_RADIUS"
        using that(2) by blast
      then show False using True near p by simp
    qed
    ultimately show ?thesis using True near p by auto
  next
    case False
    have step: "find_nearby_from tcc k (p # pts) x y = find_nearby_from tcc (Suc k) pts x y"
      using False p c by simp
    have nk: "\<not> within_radius (tcc (fst ((p # pts) ! 0)) (snd ((p # pts) ! 0))) x y POINT_RADIUS"
      using False near p by simp
    show ?thesis
    proof
      assume "find_nearby_from tcc k (p # pts) x y = Some idx"
      then have ih: "Suc k \<le> idx \<and> idx < Suc k + length pts
         \<and> within_radius (tcc (fst (pts ! (idx - Suc k))) (snd (pts ! (idx - Suc k)))) x y POINT_RADIUS
         \<and> (\<forall>j<idx - Suc k. \<not> within_radius (tcc (fst (pts ! j)) (snd (pts ! j))) x y POINT_RADIUS)"
        unfolding step Cons.IH .
      then obtain m where m: "idx - k = Suc m" "idx - Suc k = m"
        by (metis Suc_diff_Suc Suc_le_lessD diff_Suc_eq_diff_pred diff_Suc_1)
      have "\<not> within_radius (tcc (fst ((p # pts) ! j)) (snd ((p # pts) ! j))) x y POINT_RADIUS"
        if "j < idx - k" for j
      proof (cases j)
        case 0
        then show ?thesis using nk by simp
      next
        case (Suc j')
        then have "j' < idx - Suc k" using that m by simp
        then show ?thesis using ih Suc by simp
      qed
      then show "k \<le> idx \<and> idx < k + length (p # pts)
        \<and> within_radius (tcc (fst ((p # pts) ! (idx - k))) (snd ((p # pts) ! (idx - k)))) x y POINT_RADIUS
        \<and> (\<forall>j<idx - k. \<not> within_radius (tcc (fst ((p # pts) ! j)) (snd ((p # pts) ! j))) x y POINT_RADIUS)"
        using ih m by simp
    next
      assume a: "k \<le> idx \<and> idx < k + length (p # pts)
        \<and> within_radius (tcc (fst ((p # pts) ! (idx - k))) (snd ((p # pts) ! (idx - k)))) x y POINT_RADIUS
        \<and> (\<forall>j<idx - k. \<not> within_radius (tcc (fst ((p # pts) ! j)) (snd ((p # pts) ! j))) x y POINT_RADIUS)"
      have "idx \<noteq> k" using a nk by auto
      then obtain m where m: "idx - k = Suc m" "idx - Suc k = m" "Suc k \<le> idx"
        using a by (metis Suc_diff_Suc Suc_leI diff_Suc_1 le_neq_implies_less)
      have "\<not> within_radius (tcc (fst (pts ! j)) (snd (pts ! j))) x y POINT_RADIUS" if "j < m" for j
      proof -
        have "Suc j < idx - k" using that m by simp
        then have "\<not> within_radius (tcc (fst ((p # pts) ! Suc j)) (snd ((p # pts) ! Suc j))) x y POINT_RADIUS"
          using a by blast
        then show ?thesis by simp
      qed
      then have "Suc k \<le> idx \<and> idx < Suc k + length pts
         \<and> within_radius (tcc (fst (pts ! (idx - Suc k))) (snd (pts ! (idx - Suc k)))) x y POINT_RADIUS
         \<and> (\<forall>j<idx - Suc k. \<not> within_radius (tcc (fst (pts ! j)) (snd (pts ! j))) x y POINT_RADIUS)"
        using a m by simp
      then show "find_nearby_from tcc k (p # pts) x y = Some idx"
        unfolding step Cons.IH .
    qed
  qed
qed


lemma find_nearby_from_none:
  "find_nearby_from tcc 0 pts x y = None \<longleftrightarrow>
     (\<forall>i<length pts. \<not> within_radius (tcc (fst (pts ! i)) (snd (pts ! i))) x y POINT_RADIUS)"
proof
  assume n: "find_nearby_from tcc 0 pts x y = None"
  show "\<forall>i<length pts. \<not> within_radius (tcc (fst (pts ! i)) (snd (pts ! i))) x y POINT_RADIUS"
  proof (intro allI impI notI)
    fix i
    assume i: "i < length pts"
      and w: "within_radius (tcc (fst (pts ! i)) (snd (pts ! i))) x y POINT_RADIUS"
    let ?P = "\<lambda>i. i < length pts \<and> within_radius (tcc (fst (pts ! i)) (snd (pts ! i))) x y POINT_RADIUS"
    define m where "m = (LEAST i. ?P i)"
    have "?P i" using i w by simp
    then have m: "?P m" unfolding m_def by (rule LeastI)
    have least: "\<not> ?P j" if "j < m" for j
      using that unfolding m_def by (rule not_less_Least)
    have "\<forall>j<m. \<not> within_radius (tcc (fst (pts ! j)) (snd (pts ! j))) x y POINT_RADIUS"
      using least m by (metis less_trans)
    then have "find_nearby_from tcc 0 pts x y = Some m"
      using m by (simp add: find_nearby_from_first)
    then show False using n by simp
  qed
next
  assume a: "\<forall>i<length pts. \<not> within_radius (tcc (fst (pts ! i)) (snd (pts ! i))) x y POINT_RADIUS"
  show "find_nearby_from tcc 0 pts x y = None"
  proof (cases "find_nearby_from tcc 0 pts x y")
    case None
    then show ?thesis .
  next
    case (Some idx)
    then have "idx < length pts \<and> within_radius (tcc (fst (pts ! idx)) (snd (pts ! idx))) x y POINT_RADIUS"
      by (simp add: find_nearby_from_first)
    then show ?thesis using a by blast
  qed
qed

text \<open>
  Claim C8. \<open>find_nearby_point\<close> returns index \<open>i\<close> exactly when the rendered position
  of point \<open>i\<close> lies within Euclidean distance \<open>POINT_RADIUS\<close> of the query and no point
  of a lower index does; it returns none exactly when no point lies within that
  distance. So among several points within the radius the lowest index wins. This
  holds with the transform of either script.
\<close>

theorem find_nearby_point_lowest:
  fixes st :: editor and st2 :: editor2
  shows "(find_nearby_point st x y = Some i \<longleftrightarrow>
            i < length (points st)
            \<and> within_radius (to_canvas_coords (fst (points st ! i)) (snd (points st ! i))) x y POINT_RADIUS
            \<and> (\<forall>j<i. \<not> within_radius (to_canvas_coords (fst (points st ! j)) (snd (points st ! j)))
                        x y POINT_RADIUS))
       \<and> (find_nearby_point st x y = None \<longleftrightarrow>
            (\<forall>j<length (points st).
               \<not> within_radius (to_canvas_coords (fst (points st ! j)) (snd (points st ! j)))
                   x y POINT_RADIUS))
       \<and> (find_nearby_point2 st2 x y = Some i \<longleftrightarrow>
            i < length (points st2)
            \<and> within_radius (to_canvas_coords2 (fst (points st2 ! i)) (snd (points st2 ! i))) x y POINT_RADIUS
            \<and> (\<forall>j<i. \<not> within_radius (to_canvas_coords2 (fst (points st2 ! j)) (snd (points st2 ! j)))
                        x y POINT_RADIUS))
       \<and> (find_nearby_point2 st2 x y = None \<longleftrightarrow>
            (\<forall>j<length (points st2).
               \<not> within_radius (to_canvas_coords2 (fst (points st2 ! j)) (snd (points st2 ! j)))
                   x y POINT_RADIUS))"
  unfolding find_nearby_point_def find_nearby_point2_def
  by (simp only: find_nearby_from_first find_nearby_from_none) simp

theorem find_nearby_point_lowest_witness:
  "within_radius (to_canvas_coords (1 / 2) (1 / 2)) (505 / 2) (1250 / 3) POINT_RADIUS
   \<and> within_radius (to_canvas_coords (51 / 100) (1 / 2)) (505 / 2) (1250 / 3) POINT_RADIUS
   \<and> find_nearby_point \<lparr>use_windows_curve = False, enable_nonlinear_boost = False,
        enable_acceleration_cap = False,
        points = [(0, 0), (1 / 2, 1 / 2), (51 / 100, 1 / 2), (1, 1)],
        point_index = None, offset_x = 0, offset_y = 0\<rparr> (505 / 2) (1250 / 3) = Some 1
   \<and> find_nearby_point2 \<lparr>use_windows_curve = False, enable_nonlinear_boost = False,
        enable_acceleration_cap = False,
        points = [(0, 0), (1 / 2, 1 / 2), (51 / 100, 1 / 2), (1, 1)],
        point_index = None, offset_x = 0, offset_y = 0,
        lock_low_speed = True, selected_indices = []\<rparr> (2523 / 10) (1210 / 3) = Some 1"
proof -
  let ?pts = "[(0, 0), (1 / 2, 1 / 2), (51 / 100, 1 / 2), (1 :: real, 1 :: real)]"
  let ?st = "\<lparr>use_windows_curve = False, enable_nonlinear_boost = False,
        enable_acceleration_cap = False, points = ?pts,
        point_index = None, offset_x = 0, offset_y = 0\<rparr>"
  let ?st2 = "\<lparr>use_windows_curve = False, enable_nonlinear_boost = False,
        enable_acceleration_cap = False, points = ?pts,
        point_index = None, offset_x = 0, offset_y = 0,
        lock_low_speed = True, selected_indices = []\<rparr>"
  have a: "\<not> within_radius (to_canvas_coords 0 0) (505 / 2) (1250 / 3) POINT_RADIUS"
    "within_radius (to_canvas_coords (1 / 2) (1 / 2)) (505 / 2) (1250 / 3) POINT_RADIUS"
    "within_radius (to_canvas_coords (51 / 100) (1 / 2)) (505 / 2) (1250 / 3) POINT_RADIUS"
    unfolding within_radius_squares
    by (simp_all add: to_canvas_coords_def X_MIN_def X_MAX_def Y_MIN_def
          Y_MAX_def CANVAS_WIDTH_def CANVAS_HEIGHT_def POINT_RADIUS_def power2_eq_square)
  have b: "\<not> within_radius (to_canvas_coords2 0 0) (2523 / 10) (1210 / 3) POINT_RADIUS"
    "within_radius (to_canvas_coords2 (1 / 2) (1 / 2)) (2523 / 10) (1210 / 3) POINT_RADIUS"
    unfolding within_radius_squares
    by (simp_all add: to_canvas_coords2_def X_MIN_def X_MAX_def Y_MIN_def
          Y_MAX_def CANVAS_WIDTH_def CANVAS_HEIGHT_def POINT_RADIUS_def MARGIN_def
          power2_eq_square)
  have "find_nearby_point ?st (505 / 2) (1250 / 3) = Some 1"
    using find_nearby_point_lowest [of ?st "505 / 2" "1250 / 3" 1 ?st2] a by simp
  moreover have "find_nearby_point2 ?st2 (2523 / 10) (1210 / 3) = Some 1"
    using find_nearby_point_lowest [of ?st "2523 / 10" "1210 / 3" 1 ?st2] b by simp
  ultimately show ?thesis using a by simp
qed

section \<open>Properties of the device enumeration\<close>

subsection \<open>Lowering a name and comparing letters\<close>

lemma capital_codes:
  "c \<in> set capital_letters \<longleftrightarrow> 65 \<le> (of_char c :: nat) \<and> (of_char c :: nat) \<le> 90"
proof -
  have "map of_char capital_letters = [65..<(91::nat)]"
    by code_simp
  then have i: "of_char ` set capital_letters = {65..<(91::nat)}"
    by (metis set_map set_upt)
  have "c \<in> set capital_letters \<longleftrightarrow> (of_char c :: nat) \<in> of_char ` set capital_letters"
    by (simp add: inj_image_mem_iff inj_of_char)
  then show ?thesis unfolding i by auto
qed

lemma small_of_capital:
  "map (\<lambda>c. char_of (of_char c + 32 :: nat)) capital_letters = small_letters"
  by (simp add: capital_letters_def small_letters_def char_of_eq_iff)

lemma zip_map_same: "zip xs (map f xs) = map (\<lambda>x. (x, f x)) xs"
  by (induction xs) simp_all

lemma letter_pairs:
  "set (zip capital_letters small_letters)
   = (\<lambda>c. (c, char_of (of_char c + 32 :: nat))) ` set capital_letters"
proof -
  have "zip capital_letters small_letters
        = map (\<lambda>c. (c, char_of (of_char c + 32 :: nat))) capital_letters"
    unfolding small_of_capital [symmetric] by (rule zip_map_same)
  then show ?thesis by (simp only: set_map)
qed

lemma capital_pairs:
  "c \<in> set capital_letters \<Longrightarrow>
     (c, char_of (of_char c + 32 :: nat)) \<in> set (zip capital_letters small_letters)"
  unfolding letter_pairs by (rule imageI)

lemma pairs_capital:
  "(a, b) \<in> set (zip capital_letters small_letters) \<Longrightarrow>
     a \<in> set capital_letters \<and> b = char_of (of_char a + 32 :: nat)"
  unfolding letter_pairs by blast

lemma small_not_capital:
  assumes "w \<in> set small_letters"
  shows "w \<notin> set capital_letters"
proof -
  have "w \<in> set (map (\<lambda>c. char_of (of_char c + 32 :: nat)) capital_letters)"
    using assms by (simp only: small_of_capital)
  then obtain a where a: "a \<in> set capital_letters" and w: "w = char_of (of_char a + 32 :: nat)"
    by auto
  have b: "65 \<le> (of_char a :: nat)" "(of_char a :: nat) \<le> 90"
    using a by (simp_all add: capital_codes)
  then have "(of_char w :: nat) = of_char a + 32" unfolding w by simp
  then show ?thesis using b by (simp add: capital_codes)
qed

lemma lower_char_capital:
  "lower_char c = (if c \<in> set capital_letters then char_of (of_char c + 32 :: nat) else c)"
  by (simp add: lower_char_def Let_def capital_codes)

lemma lower_char_small:
  assumes w: "w \<in> set small_letters"
  shows "(lower_char c = w) = same_letter c w"
proof
  assume l: "lower_char c = w"
  show "same_letter c w"
  proof (cases "c \<in> set capital_letters")
    case True
    then have "w = char_of (of_char c + 32 :: nat)" using l by (simp add: lower_char_capital)
    then show ?thesis using capital_pairs [OF True] by (simp add: same_letter_def)
  next
    case False
    then show ?thesis using l by (simp add: lower_char_capital same_letter_def)
  qed
next
  assume "same_letter c w"
  then consider "c = w" | "(c, w) \<in> set (zip capital_letters small_letters)"
    | "(w, c) \<in> set (zip capital_letters small_letters)"
    unfolding same_letter_def by blast
  then show "lower_char c = w"
  proof cases
    case 1
    then show ?thesis using small_not_capital [OF w] by (simp add: lower_char_capital)
  next
    case 2
    then show ?thesis using pairs_capital [OF 2] by (simp add: lower_char_capital)
  next
    case 3
    then show ?thesis using pairs_capital [OF 3] small_not_capital [OF w] by simp
  qed
qed

lemma prefix_lower:
  "set word \<subseteq> set small_letters \<Longrightarrow> prefix word (map lower_char name) = matches_here word name"
proof (induction word name rule: matches_here.induct)
  case (1 name)
  show ?case by simp
next
  case (2 w word)
  show ?case by simp
next
  case (3 w word c name)
  then have w: "w \<in> set small_letters" and r: "set word \<subseteq> set small_letters" by simp_all
  have "(w = lower_char c) = same_letter c w" using lower_char_small [OF w, of c] by auto
  then show ?case using "3.IH" [OF r] by simp
qed

lemma sublist_lower:
  "set word \<subseteq> set small_letters \<Longrightarrow> sublist word (lower name) = contains_ignoring_case word name"
proof (induction name)
  case Nil
  show ?case by (simp add: lower_def)
next
  case (Cons c name)
  have "sublist word (lower (c # name))
        = (prefix word (map lower_char (c # name)) \<or> sublist word (lower name))"
    by (simp add: lower_def sublist_Cons_right)
  then show ?case using Cons.IH [OF Cons.prems] prefix_lower [OF Cons.prems, of "c # name"] by simp
qed

lemma words_small:
  "set ''usb'' \<subseteq> set small_letters" "set ''mouse'' \<subseteq> set small_letters"
  "set ''touchpad'' \<subseteq> set small_letters" "set ''optical'' \<subseteq> set small_letters"
  by (simp_all add: small_letters_def)

lemma filter_is_pointer_name:
  "(\<lambda>d. sublist ''mouse'' (lower d) \<or> sublist ''touchpad'' (lower d)) = is_pointer_name"
  by (rule ext) (simp only: is_pointer_name_def sublist_lower [OF words_small(2)]
      sublist_lower [OF words_small(3)])

lemma device_priority_class_eq:
  "device_priority a = k \<longleftrightarrow>
     (k = 1 \<and> priority_class a = 0) \<or> (k = 2 \<and> priority_class a = 1)
     \<or> (k = 3 \<and> priority_class a = 2) \<or> (k = 100 \<and> priority_class a = 3)"
  unfolding device_priority_def priority_class_def Let_def
    sublist_lower [OF words_small(1)] sublist_lower [OF words_small(2)]
    sublist_lower [OF words_small(4)]
  by auto

lemma device_priority_class:
  "device_priority a \<le> device_priority b \<longleftrightarrow> priority_class a \<le> priority_class b"
  unfolding device_priority_def priority_class_def Let_def
    sublist_lower [OF words_small(1)] sublist_lower [OF words_small(2)]
    sublist_lower [OF words_small(4)]
  by simp


lemma priority_class_filter:
  "filter (\<lambda>d. priority_class d = c) (sort_key device_priority xs)
   = filter (\<lambda>d. priority_class d = c) xs"
proof -
  consider "c = 0" | "c = 1" | "c = 2" | "c = 3" | "3 < c" by linarith
  then show ?thesis
  proof cases
    case 1
    have "(\<lambda>d. priority_class d = c) = (\<lambda>d. device_priority d = 1)"
      unfolding 1 by (rule ext) (simp add: device_priority_class_eq)
    then show ?thesis by (simp only: sort_key_stable)
  next
    case 2
    have "(\<lambda>d. priority_class d = c) = (\<lambda>d. device_priority d = 2)"
      unfolding 2 by (rule ext) (simp add: device_priority_class_eq)
    then show ?thesis by (simp only: sort_key_stable)
  next
    case 3
    have "(\<lambda>d. priority_class d = c) = (\<lambda>d. device_priority d = 3)"
      unfolding 3 by (rule ext) (simp add: device_priority_class_eq)
    then show ?thesis by (simp only: sort_key_stable)
  next
    case 4
    have "(\<lambda>d. priority_class d = c) = (\<lambda>d. device_priority d = 100)"
      unfolding 4 by (rule ext) (simp add: device_priority_class_eq)
    then show ?thesis by (simp only: sort_key_stable)
  next
    case 5
    then have "(\<lambda>d. priority_class d = c) = (\<lambda>d. False)"
      by (intro ext) (auto simp: priority_class_def)
    then show ?thesis by simp
  qed
qed

lemma sorted_priority_class: "sorted (map priority_class (sort_key device_priority xs))"
proof -
  have "sorted (map device_priority (sort_key device_priority xs))" by (rule sorted_sort_key)
  then show ?thesis by (simp only: sorted_map device_priority_class)
qed

text \<open>
  Claim C9. For every list of device names, \<open>get_pointer_devices\<close> returns exactly the
  names that contain "mouse" or "touchpad" case-insensitively, each as often as it
  occurs; the result is ordered by priority class (usb, mouse, optical, others); and
  the names of any one class appear in the order they had in the input.
\<close>

theorem get_pointer_devices_order:
  "mset (get_pointer_devices (Some devices)) = mset (filter is_pointer_name devices)
   \<and> sorted (map priority_class (get_pointer_devices (Some devices)))
   \<and> (\<forall>c. filter (\<lambda>d. priority_class d = c) (get_pointer_devices (Some devices))
          = filter (\<lambda>d. priority_class d = c) (filter is_pointer_name devices))"
proof -
  have g: "get_pointer_devices (Some devices) = sort_key device_priority (filter is_pointer_name devices)"
    unfolding get_pointer_devices_def filter_is_pointer_name by simp
  show ?thesis unfolding g
    by (simp only: mset_sort sorted_priority_class priority_class_filter) simp
qed

theorem get_pointer_devices_order_witness:
  "get_pointer_devices (Some [''Mouse B'', ''kbd'', ''USB Mouse'', ''TouchPad'', ''MOUSE A'',
       ''usb TOUCHPAD'', ''Optical TouchPad''])
     = [''USB Mouse'', ''usb TOUCHPAD'', ''Mouse B'', ''MOUSE A'', ''Optical TouchPad'', ''TouchPad'']
   \<and> filter is_pointer_name [''Mouse B'', ''kbd'', ''USB Mouse'', ''TouchPad'', ''MOUSE A'',
       ''usb TOUCHPAD'', ''Optical TouchPad'']
     = [''Mouse B'', ''USB Mouse'', ''TouchPad'', ''MOUSE A'', ''usb TOUCHPAD'', ''Optical TouchPad'']
   \<and> map priority_class
         [''USB Mouse'', ''usb TOUCHPAD'', ''Mouse B'', ''MOUSE A'', ''Optical TouchPad'', ''TouchPad'']
       = [0, 0, 1, 1, 2, 3]
   \<and> mset [''USB Mouse'', ''usb TOUCHPAD'', ''Mouse B'', ''MOUSE A'', ''Optical TouchPad'', ''TouchPad'']
       = mset [''Mouse B'', ''USB Mouse'', ''TouchPad'', ''MOUSE A'', ''usb TOUCHPAD'', ''Optical TouchPad'']
   \<and> sorted (map priority_class
         [''USB Mouse'', ''usb TOUCHPAD'', ''Mouse B'', ''MOUSE A'', ''Optical TouchPad'', ''TouchPad''])
   \<and> filter (\<lambda>d. priority_class d = 1)
         [''USB Mouse'', ''usb TOUCHPAD'', ''Mouse B'', ''MOUSE A'', ''Optical TouchPad'', ''TouchPad'']
       = filter (\<lambda>d. priority_class d = 1)
           [''Mouse B'', ''USB Mouse'', ''TouchPad'', ''MOUSE A'', ''usb TOUCHPAD'', ''Optical TouchPad'']"
proof -
  have e: "get_pointer_devices (Some [''Mouse B'', ''kbd'', ''USB Mouse'', ''TouchPad'', ''MOUSE A'',
       ''usb TOUCHPAD'', ''Optical TouchPad''])
     = [''USB Mouse'', ''usb TOUCHPAD'', ''Mouse B'', ''MOUSE A'', ''Optical TouchPad'', ''TouchPad'']"
    by code_simp
  have f: "filter is_pointer_name [''Mouse B'', ''kbd'', ''USB Mouse'', ''TouchPad'', ''MOUSE A'',
       ''usb TOUCHPAD'', ''Optical TouchPad'']
     = [''Mouse B'', ''USB Mouse'', ''TouchPad'', ''MOUSE A'', ''usb TOUCHPAD'', ''Optical TouchPad'']"
    by code_simp
  have c: "map priority_class
         [''USB Mouse'', ''usb TOUCHPAD'', ''Mouse B'', ''MOUSE A'', ''Optical TouchPad'', ''TouchPad'']
       = [0, 0, 1, 1, 2, 3]"
    by code_simp
  note t = get_pointer_devices_order [of "[''Mouse B'', ''kbd'', ''USB Mouse'', ''TouchPad'', ''MOUSE A'',
       ''usb TOUCHPAD'', ''Optical TouchPad'']", unfolded e f]
  show ?thesis using e f c t by blast
qed


section \<open>The invariant holds in every state a session reaches\<close>

text \<open>
  The properties above that assume the curve invariant, or a selection made of indices
  of the curve, therefore apply to every state of a session of simulator2.py.
\<close>

lemma curve_ok_four:
  "curve_ok [a, b, c, d] = (fst a \<le> fst b \<and> fst b \<le> fst c \<and> fst c \<le> fst d
      \<and> in_bounds a \<and> in_bounds b \<and> in_bounds c \<and> in_bounds d)"
  by (auto simp: curve_ok_def inputs_nondecreasing_def less_Suc_eq nth_Cons')

lemma preset_ok: "editor2_ok (update_curve_from_options2 st)"
  by (simp add: editor2_ok_def update_curve_from_options2_def Let_def WINDOWS_CURVE_def
      curve_ok_three curve_ok_four in_bounds_def X_MIN_def X_MAX_def Y_MIN_def Y_MAX_def)

lemma on_press2_ok:
  assumes "editor2_ok st"
  shows "editor2_ok (fst (on_press2 st ex ey s))"
proof (cases "find_nearby_point2 st ex ey")
  case None
  then show ?thesis using assms by (simp add: on_press2_def editor2_ok_def)
next
  case (Some idx)
  have idx: "idx < length (points st)"
    using find_nearby_from_range [of to_canvas_coords2 0 "points st" ex ey idx] Some
    by (simp add: find_nearby_point2_def)
  show ?thesis
    using assms Some idx
    by (auto simp: on_press2_def editor2_ok_def getitem_def Let_def distinct_removeAll
        split: prod.splits)
qed

lemma adjust_selected_ok:
  assumes "curve_ok pts"
  shows "curve_ok (adjust_selected delta lock selection pts)"
proof -
  have mono: "fst (pts ! i) \<le> fst (pts ! Suc i)" if "Suc i < length pts" for i
    using assms that by (simp add: curve_ok_def inputs_nondecreasing_def)
  have bnd: "in_bounds (pts ! i)" if "i < length pts" for i
    using assms that by (simp add: curve_ok_def list_all_length)
  have "inputs_nondecreasing (adjust_selected delta lock selection pts)"
    using mono by (simp add: inputs_nondecreasing_def adjust_selected_def)
  moreover have "list_all in_bounds (adjust_selected delta lock selection pts)"
    using bnd by (auto simp: list_all_length adjust_selected_def in_bounds_def Y_MIN_def Y_MAX_def)
  ultimately show ?thesis by (simp add: curve_ok_def)
qed

lemma increase_all_points_ok:
  assumes "editor2_ok st"
  shows "editor2_ok (fst (increase_all_points st))"
proof -
  have b: "list_all in_bounds (points st)" and d: "distinct (selected_indices st)"
    and r: "\<forall>i\<in>set (selected_indices st). i < length (points st)"
    and c: "curve_ok (points st)"
    using assms by (simp_all add: editor2_ok_def curve_ok_def)
  show ?thesis
    unfolding increase_all_points_adjust [OF b d r]
    using d r adjust_selected_ok [OF c] by (simp add: editor2_ok_def adjust_selected_def)
qed

lemma decrease_all_points_ok:
  assumes "editor2_ok st"
  shows "editor2_ok (fst (decrease_all_points st))"
proof -
  have b: "list_all in_bounds (points st)" and d: "distinct (selected_indices st)"
    and r: "\<forall>i\<in>set (selected_indices st). i < length (points st)"
    and c: "curve_ok (points st)"
    using assms by (simp_all add: editor2_ok_def curve_ok_def)
  show ?thesis
    unfolding decrease_all_points_adjust [OF b d r]
    using d r adjust_selected_ok [OF c] by (simp add: editor2_ok_def adjust_selected_def)
qed

lemma on_drag2_selection: "selected_indices (fst (on_drag2 st ex ey)) = selected_indices st"
  by (auto simp: on_drag2_def Let_def split: option.splits sum.splits prod.splits)

lemma on_drag2_ok:
  assumes "editor2_ok st"
  shows "editor2_ok (fst (on_drag2 st ex ey))"
  using assms on_drag2_curve_ok [of st ex ey]
  by (simp add: editor2_ok_def on_drag2_selection on_drag2_length)

lemma reachable2_ok: "reachable2 st \<Longrightarrow> editor2_ok st"
proof (induction rule: reachable2.induct)
  case (preset st)
  show ?case by (rule preset_ok)
next
  case (lock st b)
  then show ?case by (simp add: editor2_ok_def)
next
  case (press st event_x event_y event_state)
  from press.IH show ?case by (rule on_press2_ok)
next
  case (drag st event_x event_y)
  from drag.IH show ?case by (rule on_drag2_ok)
next
  case (release st)
  then show ?case by (simp add: editor2_ok_def on_release_def)
next
  case (increase st)
  from increase.IH show ?case by (rule increase_all_points_ok)
next
  case (decrease st)
  from decrease.IH show ?case by (rule decrease_all_points_ok)
qed

end
